theory Spec2Isabelle
  imports Complex_Main "HOL-Library.Log_Nat"
begin

section \<open>Shared helpers: JavaScript strings and values\<close>

text \<open>
  Strings are modelled as \<open>string\<close>; the helpers below cover the ASCII range, which is
  what the identifiers, URLs and option values of the application use:
  \<open>toUpperCase\<close> maps the letters a to z only, and \<open>trim\<close> strips ASCII white space
  only, where the JavaScript methods also handle the other Unicode letters and white
  space. The user-facing toasts of the React pages are Cyrillic texts; they are recorded
  by kind only.
\<close>

definition lower_letters :: string where
  "lower_letters = ''abcdefghijklmnopqrstuvwxyz''"

definition upper_letters :: string where
  "upper_letters = ''ABCDEFGHIJKLMNOPQRSTUVWXYZ''"

definition toUpperCase_char :: "char \<Rightarrow> char" where
  "toUpperCase_char c =
     (case map_of (zip lower_letters upper_letters) c of None \<Rightarrow> c | Some C \<Rightarrow> C)"

definition toUpperCase :: "string \<Rightarrow> string" where
  "toUpperCase s = map toUpperCase_char s"

definition digit_char :: "nat \<Rightarrow> char" where
  "digit_char d = ''0123456789'' ! d"

fun string_of_nat :: "nat \<Rightarrow> string" where
  "string_of_nat n =
     (if n < 10 then [digit_char n] else string_of_nat (n div 10) @ [digit_char (n mod 10)])"

declare string_of_nat.simps [simp del]

definition is_space :: "char \<Rightarrow> bool" where
  "is_space c = (c \<in> set [CHR '' '', CHR 0x09, CHR 0x0A, CHR 0x0B, CHR 0x0C, CHR 0x0D])"

definition trim :: "string \<Rightarrow> string" where
  "trim s = rev (dropWhile is_space (rev (dropWhile is_space s)))"

fun split_comma :: "string \<Rightarrow> string list" where
  "split_comma [] = [[]]"
| "split_comma (c # cs) =
     (if c = CHR '','' then [] # split_comma cs
      else (case split_comma cs of [] \<Rightarrow> [[c]] | w # ws \<Rightarrow> (c # w) # ws))"

text \<open>Truthiness of an optional string (\<open>undefined\<close>, \<open>null\<close> and \<open>''\<close> are falsy).\<close>

definition truthy :: "string option \<Rightarrow> bool" where
  "truthy v = (case v of None \<Rightarrow> False | Some s \<Rightarrow> s \<noteq> [])"

text \<open>Truthiness of an optional number (\<open>null\<close> and \<open>0\<close> are falsy).\<close>

definition truthy_num :: "int option \<Rightarrow> bool" where
  "truthy_num v = (case v of None \<Rightarrow> False | Some n \<Rightarrow> n \<noteq> 0)"

datatype toast = ToastSuccess | ToastError

datatype error =
    ValidationRejected
  | RequestFailed
  | Error string

section \<open>UnifiedAdd: the Upload-and-Link workflow\<close>

type_synonym file_obj = string

record gloss =
  gloss_ident :: nat
  gloss_name :: string

record gloss_body =
  gb_name :: string
  gb_synonyms :: "string list option"
  gb_description :: "string option"

record form_values =
  gloss_id :: nat
  language_id :: string
  emotion :: "string option"
  variant_type :: "string option"
  priority :: "nat option"
  transition_in :: "string option"
  transition_out :: "string option"

record upload_data =
  success :: bool
  url :: string

record asset =
  asset_id :: nat
  file_url :: string

record language =
  lang_code :: string
  lang_name :: string

datatype jsval = Str string | Num int

type_synonym params = "(string \<times> jsval) list"

text \<open>
  The HTTP requests of the client, one constructor per method and endpoint:
  \<open>PutGloss i b\<close> is \<open>PUT /api/v1/cms/glosses/i\<close>, \<open>PutLanguage c b\<close> is
  \<open>PUT /api/v1/cms/languages/c\<close>, and \<open>DeleteVariant t d\<close> is
  \<open>DELETE /api/v1/cms/variants/t?delete_file=d\<close>.
\<close>

datatype request =
    PostUpload file_obj "string option" "string option"
  | GetAssets
  | PostVariant form_values nat
  | PostGloss gloss_body
  | PutGloss nat gloss_body
  | GetGlosses "string option"
  | GetLanguages
  | PostLanguage language
  | PutLanguage string language
  | DeleteLanguage string
  | GetSearch params
  | GetVariants params
  | DeleteVariant "nat option" bool

datatype effect = Req request | Toast toast

datatype timer = IslandIdle | ResetForm

text \<open>
  What the outside world answers during one run of \<open>handleSubmit\<close>: the result of
  \<open>form.validateFields()\<close> (\<open>None\<close> when it rejects) and the three HTTP responses
  (\<open>Inl\<close> when the request throws).
\<close>

record env =
  validateFields :: "form_values option"
  upload_response :: "error + upload_data"
  assets_response :: "error + asset list"
  variant_response :: "error + unit"

record ui =
  uploadFile :: "file_obj option"
  newGlossName :: string
  isCreatingGloss :: bool
  glosses :: "gloss list"
  form_gloss_id :: "nat option"
  islandState :: string
  islandMessage :: string

text \<open>The component state together with the effects of one handler run.\<close>

record run = ui +
  requests :: "request list"
  console :: "error list"
  message_error :: "string list"
  timers :: "(nat \<times> timer) list"

definition start :: "ui \<Rightarrow> run" where
  "start u = \<lparr>uploadFile = uploadFile u, newGlossName = newGlossName u,
              isCreatingGloss = isCreatingGloss u, glosses = glosses u,
              form_gloss_id = form_gloss_id u,
              islandState = islandState u, islandMessage = islandMessage u,
              requests = [], console = [], message_error = [], timers = []\<rparr>"

definition send :: "request \<Rightarrow> run \<Rightarrow> run" where
  "send r s = s\<lparr>requests := requests s @ [r]\<rparr>"

text \<open>The \<open>catch\<close> block of \<open>handleSubmit\<close>.\<close>

definition catch_error :: "error \<Rightarrow> run \<Rightarrow> run" where
  "catch_error e s =
     s\<lparr>console := console s @ [e],
       islandState := ''error'',
       islandMessage := ''Error occurred'',
       timers := timers s @ [(3000, IslandIdle)]\<rparr>"

definition handleSubmit :: "env \<Rightarrow> ui \<Rightarrow> run" where
  "handleSubmit e u =
     (case validateFields e of
        None \<Rightarrow> catch_error ValidationRejected (start u)
      | Some values \<Rightarrow>
         (case uploadFile u of
            None \<Rightarrow> (start u)\<lparr>message_error := [''Please upload a file first'']\<rparr>
          | Some f \<Rightarrow>
             (let s1 = (start u)\<lparr>islandState := ''loading'',
                                 islandMessage := ''Uploading & Processing...''\<rparr>;
                  s2 = send (PostUpload f
                     (if truthy (transition_in values) then transition_in values else None)
                     (if truthy (transition_out values) then transition_out values else None))
                     s1
              in case upload_response e of
                   Inl err \<Rightarrow> catch_error err s2
                 | Inr uploadRes \<Rightarrow>
                    if \<not> success uploadRes then catch_error (Error ''Upload failed'') s2
                    else
                      (let s3 = send GetAssets s2
                       in case assets_response e of
                            Inl err \<Rightarrow> catch_error err s3
                          | Inr assets \<Rightarrow>
                             (case find (\<lambda>a. file_url a = url uploadRes) assets of
                                None \<Rightarrow>
                                  catch_error (Error ''Asset not found after upload'') s3
                              | Some a \<Rightarrow>
                                 (let s4 = send (PostVariant values (asset_id a)) s3
                                  in case variant_response e of
                                       Inl err \<Rightarrow> catch_error err s4
                                     | Inr _ \<Rightarrow>
                                        s4\<lparr>islandState := ''success'',
                                           islandMessage := ''All Done! Variant Created.'',
                                           timers := timers s4 @ [(3000, ResetForm)]\<rparr>))))))"

text \<open>The inline gloss creation of the same page.\<close>

definition handleCreateGloss :: "(error + gloss) \<Rightarrow> ui \<Rightarrow> run" where
  "handleCreateGloss resp u =
     (if newGlossName u = [] then start u
      else
        (let s1 = (start u)\<lparr>islandState := ''loading'', islandMessage := ''Creating Gloss...''\<rparr>;
             s2 = send (PostGloss \<lparr>gb_name = toUpperCase (newGlossName u),
                                   gb_synonyms = None, gb_description = None\<rparr>) s1
         in case resp of
              Inr g \<Rightarrow>
                s2\<lparr>glosses := glosses s2 @ [g],
                   form_gloss_id := Some (gloss_ident g),
                   isCreatingGloss := False,
                   islandState := ''success'',
                   islandMessage := ''Gloss Created!'',
                   timers := timers s2 @ [(2000, IslandIdle)]\<rparr>
            | Inl err \<Rightarrow>
                s2\<lparr>islandState := ''error'',
                   islandMessage := ''Failed to create gloss'',
                   timers := timers s2 @ [(3000, IslandIdle)]\<rparr>))"

definition ui0 :: ui where
  "ui0 = \<lparr>uploadFile = None, newGlossName = [], isCreatingGloss = False, glosses = [],
          form_gloss_id = None, islandState = ''idle'', islandMessage = []\<rparr>"

section \<open>Gloss creation on the Glosses page and in the legacy client\<close>

record glosses_page =
  gp_glosses :: "gloss list"
  gp_isModalVisible :: bool
  gp_editingGloss :: "gloss option"
  gp_searchText :: string
  gp_form :: gloss_body

text \<open>The form of the Glosses page has one rule: \<open>name\<close> is required.\<close>

definition validate_gloss_form :: "gloss_body \<Rightarrow> gloss_body option" where
  "validate_gloss_form f = (if gb_name f = [] then None else Some f)"

definition fetchGlosses ::
    "string \<Rightarrow> (error + gloss list) \<Rightarrow> glosses_page \<Rightarrow> glosses_page \<times> effect list" where
  "fetchGlosses q resp p =
     (case resp of
        Inr data \<Rightarrow> (p\<lparr>gp_glosses := data\<rparr>, [Req (GetGlosses (Some q))])
      | Inl err \<Rightarrow> (p, [Req (GetGlosses (Some q)), Toast ToastError]))"

definition Glosses_handleOk ::
    "(error + unit) \<Rightarrow> (error + gloss list) \<Rightarrow> glosses_page \<Rightarrow> glosses_page \<times> effect list" where
  "Glosses_handleOk resp fetched p =
     (case validate_gloss_form (gp_form p) of
        None \<Rightarrow> (p, [Toast ToastError])
      | Some values \<Rightarrow>
         (let r = (case gp_editingGloss p of
                     Some g \<Rightarrow> PutGloss (gloss_ident g) values
                   | None \<Rightarrow> PostGloss values)
          in case resp of
               Inl err \<Rightarrow> (p, [Req r, Toast ToastError])
             | Inr ok \<Rightarrow>
                (let (p', effs) = fetchGlosses (gp_searchText p) fetched
                                    (p\<lparr>gp_isModalVisible := False\<rparr>)
                 in (p', [Req r, Toast ToastSuccess] @ effs))))"

text \<open>The legacy client builds the request body from the submitted form fields.\<close>

record legacy_form =
  lf_name :: string
  lf_synonyms :: string
  lf_description :: string

text \<open>
  \<open>legacy_handleCreateGloss\<close> is \<open>handleCreateGloss\<close> of the legacy client. The response
  is \<open>Inl\<close> when \<open>fetch\<close> throws and \<open>Inr ok\<close> with the flag \<open>res.ok\<close> otherwise;
  \<open>glossesTable\<close> says whether the table element exists, which guards \<open>loadGlosses\<close>.
\<close>

definition legacy_handleCreateGloss ::
    "(error + bool) \<Rightarrow> bool \<Rightarrow> legacy_form \<Rightarrow> effect list" where
  "legacy_handleCreateGloss resp glossesTable f =
     (let data = \<lparr>gb_name = toUpperCase (lf_name f),
                   gb_synonyms = Some (if lf_synonyms f \<noteq> []
                                       then map trim (split_comma (lf_synonyms f)) else []),
                   gb_description = Some (lf_description f)\<rparr>
      in Req (PostGloss data) #
         (case resp of
            Inl err \<Rightarrow> [Toast ToastError]
          | Inr ok \<Rightarrow>
              if \<not> ok then [Toast ToastError]
              else Toast ToastSuccess # (if glossesTable then [Req (GetGlosses None)] else [])))"

section \<open>Search page: building the search request\<close>

record search_state =
  query :: string
  language :: "string option"
  emotionSel :: "string option"
  minFps :: "int option"
  maxFps :: "int option"
  minDuration :: "int option"
  maxDuration :: "int option"
  sortBy :: string
  languages :: "language list"

definition search_init :: search_state where
  "search_init = \<lparr>query = [], language = None, emotionSel = None, minFps = None,
      maxFps = None, minDuration = None, maxDuration = None,
      sortBy = ''-created_at'', languages = []\<rparr>"

text \<open>One line \<open>if (v) params.key = v\<close> of \<open>handleSearch\<close>, for a string and for a number.\<close>

definition param_str :: "string \<Rightarrow> string option \<Rightarrow> params" where
  "param_str key v = (if truthy v then (case v of None \<Rightarrow> [] | Some x \<Rightarrow> [(key, Str x)]) else [])"

definition param_num :: "string \<Rightarrow> int option \<Rightarrow> params" where
  "param_num key v = (if truthy_num v then (case v of None \<Rightarrow> [] | Some n \<Rightarrow> [(key, Num n)]) else [])"

definition search_params :: "search_state \<Rightarrow> params" where
  "search_params s =
     param_str ''q'' (Some (query s)) @
     param_str ''language_id'' (language s) @
     param_str ''emotion'' (emotionSel s) @
     param_num ''min_fps'' (minFps s) @
     param_num ''max_fps'' (maxFps s) @
     param_num ''min_duration'' (minDuration s) @
     param_num ''max_duration'' (maxDuration s) @
     param_str ''sort_by'' (Some (sortBy s))"

text \<open>
  \<open>handleSearch\<close> sends the one request built from the current state. The display copy
  of the URL (\<open>requestUrl\<close>), the \<open>loading\<close> flag and the result table are not modelled.
\<close>

definition handleSearch :: "search_state \<Rightarrow> request list" where
  "handleSearch s = [GetSearch (search_params s)]"

text \<open>The option lists of the filter panel, as the JSX has them.\<close>

definition sort_options :: "string list" where
  "sort_options = [''-created_at'', ''created_at'', ''duration'', ''-duration'']"

definition emotion_options :: "string list" where
  "emotion_options = [''Neutral'', ''Happy'', ''Sad'', ''Angry'', ''Question'']"

definition fps_options :: "int list" where
  "fps_options = [24, 30, 60, 100]"

text \<open>
  What the operator can do on the page: type into the search box, pick a radio button
  (\<open>None\<close> is the button with value \<open>null\<close>, \<open>Some i\<close> the \<open>i\<close>-th button after it), pick an
  entry of the sort select; and the language list arriving from the server. A pick beyond
  the rendered buttons does not exist on the page and changes nothing.
\<close>

datatype search_event =
    SetQuery string
  | PickLanguage "nat option"
  | PickEmotion "nat option"
  | PickFps "nat option"
  | PickSort nat
  | LanguagesLoaded "language list"

fun search_step :: "search_state \<Rightarrow> search_event \<Rightarrow> search_state" where
  "search_step s (SetQuery q) = s\<lparr>query := q\<rparr>"
| "search_step s (PickLanguage None) = s\<lparr>language := None\<rparr>"
| "search_step s (PickLanguage (Some i)) =
     (if i < length (languages s) then s\<lparr>language := Some (lang_code (languages s ! i))\<rparr>
      else s)"
| "search_step s (PickEmotion None) = s\<lparr>emotionSel := None\<rparr>"
| "search_step s (PickEmotion (Some i)) =
     (if i < length emotion_options then s\<lparr>emotionSel := Some (emotion_options ! i)\<rparr> else s)"
| "search_step s (PickFps None) = s\<lparr>minFps := None, maxFps := None\<rparr>"
| "search_step s (PickFps (Some i)) =
     (if i < length fps_options
      then s\<lparr>minFps := Some (fps_options ! i), maxFps := Some (fps_options ! i)\<rparr> else s)"
| "search_step s (PickSort i) =
     (if i < length sort_options then s\<lparr>sortBy := sort_options ! i\<rparr> else s)"
| "search_step s (LanguagesLoaded ls) = s\<lparr>languages := ls\<rparr>"

definition search_after :: "search_event list \<Rightarrow> search_state" where
  "search_after evs = foldl search_step search_init evs"

text \<open>Language codes are primary keys; the server is taken to deliver non-empty ones.\<close>

fun codes_nonempty :: "search_event \<Rightarrow> bool" where
  "codes_nonempty (LanguagesLoaded ls) = list_all (\<lambda>l. lang_code l \<noteq> []) ls"
| "codes_nonempty _ = True"

text \<open>The request parameters that a control of the page governs.\<close>

fun controls :: "search_event \<Rightarrow> string list" where
  "controls (SetQuery q) = [''q'']"
| "controls (PickLanguage opt) = [''language_id'']"
| "controls (PickEmotion opt) = [''emotion'']"
| "controls (PickFps opt) = [''min_fps'', ''max_fps'']"
| "controls (PickSort i) = [''sort_by'']"
| "controls (LanguagesLoaded ls) = []"

text \<open>
  What holds of every state the page can reach: a chosen filter value is truthy, the
  duration filters have no control on the page and stay unset, the sort key is an option
  of the select.
\<close>

definition search_inv :: "search_state \<Rightarrow> bool" where
  "search_inv s =
     (language s \<noteq> Some [] \<and> emotionSel s \<noteq> Some [] \<and>
      minFps s \<noteq> Some 0 \<and> maxFps s \<noteq> Some 0 \<and>
      minDuration s = None \<and> maxDuration s = None \<and>
      sortBy s \<in> set sort_options \<and>
      list_all (\<lambda>l. lang_code l \<noteq> []) (languages s))"

section \<open>Variants page: deleting a variant\<close>

record variants_page =
  filterGloss :: "nat option"
  filterLang :: "string option"
  isDeleteModalVisible :: bool
  deleteTarget :: "nat option"
  deleteWithFile :: bool

definition variants_init :: variants_page where
  "variants_init = \<lparr>filterGloss = None, filterLang = None, isDeleteModalVisible = False,
      deleteTarget = None, deleteWithFile = False\<rparr>"

text \<open>
  \<open>fetchData\<close> sends its four requests together; \<open>ok\<close> says whether all of them
  succeeded. The fetched tables themselves are not modelled.
\<close>

definition fetchData :: "bool \<Rightarrow> variants_page \<Rightarrow> effect list" where
  "fetchData ok p =
     [Req (GetVariants
        ((case filterGloss p of None \<Rightarrow> [] | Some g \<Rightarrow> if g \<noteq> 0 then [(''gloss_id'', Num (int g))] else []) @
         param_str ''language_id'' (filterLang p))),
      Req (GetGlosses None), Req GetLanguages, Req GetAssets] @
     (if ok then [] else [Toast ToastError])"

definition handleDelete :: "nat \<Rightarrow> variants_page \<Rightarrow> variants_page" where
  "handleDelete i p = p\<lparr>deleteTarget := Some i, deleteWithFile := False,
                          isDeleteModalVisible := True\<rparr>"

definition confirmDelete ::
    "(error + unit) \<Rightarrow> bool \<Rightarrow> variants_page \<Rightarrow> variants_page \<times> effect list" where
  "confirmDelete resp ok p =
     (case resp of
        Inr done \<Rightarrow>
          (p\<lparr>isDeleteModalVisible := False\<rparr>,
           [Req (DeleteVariant (deleteTarget p) (deleteWithFile p)), Toast ToastSuccess] @
           fetchData ok (p\<lparr>isDeleteModalVisible := False\<rparr>))
      | Inl err \<Rightarrow>
          (p, [Req (DeleteVariant (deleteTarget p) (deleteWithFile p)), Toast ToastError]))"

text \<open>
  The delete dialog: the delete button of a row, the checkbox, Cancel and the confirming
  button. Checkbox and buttons of the dialog exist only while it is open.
\<close>

datatype variants_event =
    ClickDelete nat
  | Check bool
  | CancelDelete
  | ConfirmDelete "error + unit" bool

fun variants_step :: "variants_page \<Rightarrow> variants_event \<Rightarrow> variants_page \<times> effect list" where
  "variants_step p (ClickDelete i) = (handleDelete i p, [])"
| "variants_step p (Check b) =
     (if isDeleteModalVisible p then (p\<lparr>deleteWithFile := b\<rparr>, []) else (p, []))"
| "variants_step p CancelDelete =
     (if isDeleteModalVisible p then (p\<lparr>isDeleteModalVisible := False\<rparr>, []) else (p, []))"
| "variants_step p (ConfirmDelete resp ok) =
     (if isDeleteModalVisible p then confirmDelete resp ok p else (p, []))"

fun variants_run :: "variants_page \<Rightarrow> variants_event list \<Rightarrow> variants_page \<times> effect list" where
  "variants_run p [] = (p, [])"
| "variants_run p (ev # evs) =
     (let (p1, effs1) = variants_step p ev; (p2, effs2) = variants_run p1 evs
      in (p2, effs1 @ effs2))"

fun is_delete :: "effect \<Rightarrow> bool" where
  "is_delete (Req (DeleteVariant t d)) = True"
| "is_delete _ = False"

section \<open>Languages page: creating and editing a language\<close>















section \<open>Legacy client: formatting a file size\<close>

text \<open>
  \<open>formatFileSize\<close> on a non-negative integer byte count. \<open>Math.log\<close>, the divisions and
  \<open>Math.pow\<close> are read over the real numbers, \<open>Math.floor\<close> as the floor and
  \<open>Math.round x\<close> as \<open>\<lfloor>x + 1/2\<rfloor>\<close>. The constant \<open>kilo\<close> is \<open>k\<close> of the source;
  \<open>rounded_hundredths\<close> is \<open>Math.round(bytes / Math.pow(k, i) * 100)\<close>, and
  \<open>number_string m\<close> is the decimal text of the number \<open>m / 100\<close>. Reading the array
  beyond its end gives \<open>undefined\<close>, which the concatenation prints as that word.
  The real-number reading is meant for byte counts up to \<open>1024^4\<close>; far beyond, double
  arithmetic can round the quotient of the logarithms to another unit index.
\<close>

definition kilo :: nat where
  "kilo = 1024"

definition sizes :: "string list" where
  "sizes = [''B'', ''KB'', ''MB'', ''GB'']"

definition unit_index :: "nat \<Rightarrow> nat" where
  "unit_index bytes = nat \<lfloor>ln (real bytes) / ln (real kilo)\<rfloor>"

definition rounded_hundredths :: "nat \<Rightarrow> nat \<Rightarrow> int" where
  "rounded_hundredths bytes i = \<lfloor>real bytes / real (kilo ^ i) * 100 + 1 / 2\<rfloor>"

definition number_string :: "int \<Rightarrow> string" where
  "number_string m =
     (let ip = nat m div 100; fp = nat m mod 100
      in string_of_nat ip @
         (if fp = 0 then []
          else CHR ''.'' # digit_char (fp div 10) #
               (if fp mod 10 = 0 then [] else [digit_char (fp mod 10)])))"

definition sizes_at :: "nat \<Rightarrow> string" where
  "sizes_at i = (if i < length sizes then sizes ! i else ''undefined'')"

definition formatFileSize :: "nat \<Rightarrow> string" where
  "formatFileSize bytes =
     (if bytes = 0 then ''0 B''
      else (let i = unit_index bytes
            in number_string (rounded_hundredths bytes i) @ '' '' @ sizes_at i))"

text \<open>
  Reading a decimal text back, to say what \<open>number_string\<close> prints: \<open>digits_value\<close> is
  the number a string of digits denotes, \<open>decimal_value\<close> the number denoted by digits
  with an optional point and fraction, and \<open>two_decimals\<close> holds of the texts JavaScript
  prints for a non-negative number of hundredths: digits without a leading zero (or the
  single digit 0), then nothing or a point followed by one or two digits, the last of them
  not 0.
\<close>

definition is_digit :: "char \<Rightarrow> bool" where
  "is_digit c = (c \<in> set ''0123456789'')"

definition digit_of :: "char \<Rightarrow> nat" where
  "digit_of c = length (takeWhile (\<lambda>d. d \<noteq> c) ''0123456789'')"

definition digits_value :: "string \<Rightarrow> nat" where
  "digits_value s = foldl (\<lambda>acc c. 10 * acc + digit_of c) 0 s"

definition decimal_value :: "string \<Rightarrow> real" where
  "decimal_value s =
     (let ip = takeWhile (\<lambda>c. c \<noteq> CHR ''.'') s; fp = drop (Suc (length ip)) s
      in real (digits_value ip) + real (digits_value fp) / 10 ^ length fp)"

definition two_decimals :: "string \<Rightarrow> bool" where
  "two_decimals s =
     (let ip = takeWhile (\<lambda>c. c \<noteq> CHR ''.'') s
      in ip \<noteq> [] \<and> list_all is_digit ip \<and> (ip = ''0'' \<or> hd ip \<noteq> CHR ''0'') \<and>
         (case drop (length ip) s of
            [] \<Rightarrow> True
          | c # fp \<Rightarrow> fp \<noteq> [] \<and> length fp \<le> 2 \<and> list_all is_digit fp \<and>
                      last fp \<noteq> CHR ''0''))"

section \<open>Asset Registry: create by content hash\<close>

text \<open>
  Modelled from the spec: the Asset Registry is part of the backend, whose code is not
  among the sources; only its HTTP callers are. The registry is the table of asset rows
  with a unique constraint on the content hash. \<open>create\<close> looks the hash up and returns
  the existing row if there is one; otherwise it inserts a new row, and a
  unique-constraint violation at the insert is treated as "already exists": the existing
  row is returned.
\<close>

record 'm asset_row =
  row_id :: nat
  row_url :: string
  row_hash :: string
  row_meta :: 'm

type_synonym 'm registry = "'m asset_row list"

definition find_by_hash :: "string \<Rightarrow> 'm registry \<Rightarrow> 'm asset_row option" where
  "find_by_hash h reg = find (\<lambda>a. row_hash a = h) reg"

definition fresh_id :: "'m registry \<Rightarrow> nat" where
  "fresh_id reg = Suc (foldr max (map row_id reg) 0)"

datatype 'm insert_result = Inserted "'m asset_row" "'m registry" | UniqueViolation "'m asset_row"

text \<open>Modelled from the spec: the insert of the relational store, which enforces the constraint.\<close>

definition insert_row :: "string \<Rightarrow> string \<Rightarrow> 'm \<Rightarrow> 'm registry \<Rightarrow> 'm insert_result" where
  "insert_row u h md reg =
     (case find_by_hash h reg of
        Some a \<Rightarrow> UniqueViolation a
      | None \<Rightarrow>
          (let a = \<lparr>row_id = fresh_id reg, row_url = u, row_hash = h, row_meta = md\<rparr>
           in Inserted a (reg @ [a])))"

text \<open>Modelled from the spec: the second half of \<open>create\<close>, given the result of the lookup.\<close>

definition finish_create ::
    "string \<Rightarrow> string \<Rightarrow> 'm \<Rightarrow> 'm asset_row option \<Rightarrow> 'm registry \<Rightarrow> 'm asset_row \<times> 'm registry" where
  "finish_create u h md found reg =
     (case found of
        Some a \<Rightarrow> (a, reg)
      | None \<Rightarrow>
         (case insert_row u h md reg of
            Inserted a reg' \<Rightarrow> (a, reg')
          | UniqueViolation a \<Rightarrow> (a, reg)))"

text \<open>Modelled from the spec: \<open>create(url, hash, metadata) -> Asset\<close>.\<close>

definition create :: "string \<Rightarrow> string \<Rightarrow> 'm \<Rightarrow> 'm registry \<Rightarrow> 'm asset_row \<times> 'm registry" where
  "create u h md reg = finish_create u h md (find_by_hash h reg) reg"

text \<open>
  Modelled from the spec: two requests racing on \<open>create\<close>. A call is suspended only at
  its two round trips to the store, the lookup and the insert; a schedule says which of
  the two calls (\<open>False\<close> the first, \<open>True\<close> the second) takes its next step.
\<close>

datatype 'm call =
    Pending string string 'm
  | Looked string string 'm "'m asset_row option"
  | Returned "'m asset_row"

fun call_step :: "'m call \<Rightarrow> 'm registry \<Rightarrow> 'm call \<times> 'm registry" where
  "call_step (Pending u h md) reg = (Looked u h md (find_by_hash h reg), reg)"
| "call_step (Looked u h md found) reg =
     (let (a, reg') = finish_create u h md found reg in (Returned a, reg'))"
| "call_step (Returned a) reg = (Returned a, reg)"

fun race :: "bool list \<Rightarrow> 'm call \<times> 'm call \<times> 'm registry \<Rightarrow> 'm call \<times> 'm call \<times> 'm registry" where
  "race [] st = st"
| "race (b # bs) (c1, c2, reg) =
     (if b then (let (c2', reg') = call_step c2 reg in race bs (c1, c2', reg'))
      else (let (c1', reg') = call_step c1 reg in race bs (c1', c2, reg')))"

definition rows_with_hash :: "string \<Rightarrow> 'm registry \<Rightarrow> nat" where
  "rows_with_hash h reg = length (filter (\<lambda>a. row_hash a = h) reg)"

text \<open>
  Bookkeeping for the race: the hash a call is about, how far it has got (0 before the
  lookup, 1 after it, 2 when it has returned), and that the row it holds is in the table.
\<close>

fun call_hash :: "'m call \<Rightarrow> string" where
  "call_hash (Pending u h md) = h"
| "call_hash (Looked u h md found) = h"
| "call_hash (Returned a) = row_hash a"

fun progress :: "'m call \<Rightarrow> nat" where
  "progress (Pending u h md) = 0"
| "progress (Looked u h md found) = 1"
| "progress (Returned a) = 2"

fun call_ok :: "'m call \<Rightarrow> 'm registry \<Rightarrow> bool" where
  "call_ok (Pending u h md) reg = True"
| "call_ok (Looked u h md found) reg =
     (case found of None \<Rightarrow> True | Some a \<Rightarrow> a \<in> set reg \<and> row_hash a = h)"
| "call_ok (Returned a) reg = (a \<in> set reg)"

section \<open>Example inputs\<close>

definition example_values :: form_values where
  "example_values = \<lparr>gloss_id = 1, language_id = ''ru-RSL'', emotion = Some ''Neutral'',
      variant_type = Some ''lexical'', priority = Some 50,
      transition_in = None, transition_out = Some ''fist''\<rparr>"

definition example_ui :: ui where
  "example_ui = ui0\<lparr>uploadFile := Some ''hello.vrma''\<rparr>"

definition example_assets :: "asset list" where
  "example_assets = [\<lparr>asset_id = 3, file_url = ''s3/a.vrma''\<rparr>,
                     \<lparr>asset_id = 4, file_url = ''s3/hello.vrma''\<rparr>,
                     \<lparr>asset_id = 9, file_url = ''s3/hello.vrma''\<rparr>]"

definition env_linked :: env where
  "env_linked = \<lparr>validateFields = Some example_values,
      upload_response = Inr \<lparr>success = True, url = ''s3/hello.vrma''\<rparr>,
      assets_response = Inr example_assets, variant_response = Inr ()\<rparr>"

definition env_upload_throws :: env where
  "env_upload_throws = env_linked\<lparr>upload_response := Inl RequestFailed\<rparr>"

definition env_asset_missing :: env where
  "env_asset_missing = env_linked\<lparr>assets_response := Inr [\<lparr>asset_id = 3, file_url = ''s3/a.vrma''\<rparr>]\<rparr>"

definition example_search_events :: "search_event list" where
  "example_search_events =
     [LanguagesLoaded [\<lparr>lang_code = ''ru-RSL'', lang_name = ''Russian Sign Language''\<rparr>],
      PickLanguage (Some 0), PickFps (Some 1), SetQuery ''hello'', PickSort 3]"

definition empty_code_events :: "search_event list" where
  "empty_code_events =
     [LanguagesLoaded [\<lparr>lang_code = [], lang_name = ''Test''\<rparr>], PickLanguage (Some 0)]"

definition example_gloss_page :: glosses_page where
  "example_gloss_page = \<lparr>gp_glosses = [], gp_isModalVisible = True, gp_editingGloss = None,
      gp_searchText = [],
      gp_form = \<lparr>gb_name = ''hello'', gb_synonyms = None, gb_description = None\<rparr>\<rparr>"



definition example_row :: "unit asset_row" where
  "example_row = \<lparr>row_id = 1, row_url = ''s3/a.vrma'', row_hash = ''9f2c'', row_meta = ()\<rparr>"

section \<open>Properties of the Upload-and-Link workflow\<close>

lemmas example_defs = example_values_def example_ui_def example_assets_def env_linked_def
  env_upload_throws_def env_asset_missing_def ui0_def

lemmas handleSubmit_defs = handleSubmit_def start_def send_def catch_error_def truthy_def Let_def


lemma find_Some_first:
  "find P xs = Some a \<Longrightarrow> \<exists>pre post. xs = pre @ a # post \<and> P a \<and> (\<forall>b\<in>set pre. \<not> P b)"
proof (induction xs)
  case Nil
  then show ?case by simp
next
  case (Cons x xs)
  show ?case
  proof (cases "P x")
    case True
    with Cons.prems have "x = a" by simp
    with True have "x # xs = [] @ a # xs \<and> P a \<and> (\<forall>b\<in>set []. \<not> P b)" by simp
    then show ?thesis by blast
  next
    case False
    with Cons.prems have "find P xs = Some a" by simp
    from Cons.IH [OF this] obtain pre post
      where "xs = pre @ a # post" "P a" "\<forall>b\<in>set pre. \<not> P b" by blast
    with False have "x # xs = (x # pre) @ a # post \<and> P a \<and> (\<forall>b\<in>set (x # pre). \<not> P b)"
      by simp
    then show ?thesis by blast
  qed
qed

lemma requests_catch_error [simp]: "requests (catch_error err s) = requests s"
  by (simp add: catch_error_def)

lemma requests_send [simp]: "requests (send r s) = requests s @ [r]"
  by (simp add: send_def)

lemma requests_start [simp]: "requests (start u) = []"
  by (simp add: start_def)

text \<open>The request trace of a run, by cases on what the outside world answers.\<close>

lemma handleSubmit_requests:
  "requests (handleSubmit e u) =
     (case validateFields e of None \<Rightarrow> []
      | Some values \<Rightarrow>
        (case uploadFile u of None \<Rightarrow> []
         | Some f \<Rightarrow>
            PostUpload f
              (if truthy (transition_in values) then transition_in values else None)
              (if truthy (transition_out values) then transition_out values else None) #
            (case upload_response e of Inl err \<Rightarrow> []
             | Inr up \<Rightarrow>
                if \<not> success up then []
                else GetAssets #
                  (case assets_response e of Inl err \<Rightarrow> []
                   | Inr assets \<Rightarrow>
                      (case find (\<lambda>a. file_url a = url up) assets of None \<Rightarrow> []
                       | Some a \<Rightarrow> [PostVariant values (asset_id a)])))))"
  by (simp add: handleSubmit_def Let_def split: option.splits sum.splits)

text \<open>
  Claim C1. In a run of \<open>handleSubmit\<close> whose upload succeeded, the upload request is
  followed by a re-fetch of the asset list; a Variant-create request of that run carries the
  validated form values and the id of the first asset of the fetched list whose
  \<open>file_url\<close> equals the URL of the upload response, and such a request is sent whenever
  the list holds an asset with that URL.
\<close>

theorem handleSubmit_links_asset_with_matching_url:
  assumes "validateFields e = Some vals" and "uploadFile u = Some f"
    and "upload_response e = Inr up" and "success up"
  shows "(\<exists>ti to rest. requests (handleSubmit e u) = PostUpload f ti to # GetAssets # rest \<and>
            (rest = [] \<or> (\<exists>aid. rest = [PostVariant vals aid])))
       \<and> (\<forall>vals' aid. PostVariant vals' aid \<in> set (requests (handleSubmit e u)) \<longrightarrow>
            vals' = vals \<and>
            (\<exists>assets pre a post. assets_response e = Inr assets \<and> assets = pre @ a # post \<and>
               file_url a = url up \<and> (\<forall>b\<in>set pre. file_url b \<noteq> url up) \<and>
               aid = asset_id a))
       \<and> (\<forall>assets a. assets_response e = Inr assets \<longrightarrow> a \<in> set assets \<longrightarrow>
            file_url a = url up \<longrightarrow>
            (\<exists>aid. PostVariant vals aid \<in> set (requests (handleSubmit e u))))"
proof (intro conjI allI impI)
  show "\<exists>ti to rest. requests (handleSubmit e u) = PostUpload f ti to # GetAssets # rest \<and>
            (rest = [] \<or> (\<exists>aid. rest = [PostVariant vals aid]))"
    using assms by (simp add: handleSubmit_requests split: sum.splits option.splits)
next
  fix vals' aid
  assume m: "PostVariant vals' aid \<in> set (requests (handleSubmit e u))"
  have "vals' = vals \<and> (\<exists>assets a. assets_response e = Inr assets \<and>
      find (\<lambda>a. file_url a = url up) assets = Some a \<and> aid = asset_id a)"
  proof (cases "assets_response e")
    case (Inl err)
    with assms m show ?thesis by (simp add: handleSubmit_requests)
  next
    case (Inr assets)
    with assms m show ?thesis
      by (cases "find (\<lambda>a. file_url a = url up) assets")
         (simp_all add: handleSubmit_requests)
  qed
  then obtain assets a where a: "assets_response e = Inr assets"
      "find (\<lambda>a. file_url a = url up) assets = Some a" "vals' = vals" "aid = asset_id a"
    by blast
  from find_Some_first [OF a(2)] obtain pre post where
    "assets = pre @ a # post" "file_url a = url up" "\<forall>b\<in>set pre. file_url b \<noteq> url up"
    by blast
  with a show "vals' = vals" 
    and "\<exists>assets pre a post. assets_response e = Inr assets \<and> assets = pre @ a # post \<and>
               file_url a = url up \<and> (\<forall>b\<in>set pre. file_url b \<noteq> url up) \<and>
               aid = asset_id a"
    by blast+
next
  fix assets a
  assume "assets_response e = Inr assets" "a \<in> set assets" "file_url a = url up"
  moreover from this have "find (\<lambda>a. file_url a = url up) assets \<noteq> None"
    by (auto simp add: find_None_iff)
  ultimately show "\<exists>aid. PostVariant vals aid \<in> set (requests (handleSubmit e u))"
    using assms by (auto simp add: handleSubmit_requests split: sum.splits option.splits)
qed


theorem handleSubmit_links_asset_with_matching_url_witness:
  "requests (handleSubmit env_linked example_ui) =
     [PostUpload ''hello.vrma'' None (Some ''fist''), GetAssets, PostVariant example_values 4]
   \<and> (\<exists>assets pre a post. assets_response env_linked = Inr assets \<and>
         assets = pre @ a # post \<and> file_url a = ''s3/hello.vrma'' \<and>
         (\<forall>b\<in>set pre. file_url b \<noteq> ''s3/hello.vrma'') \<and> (4::nat) = asset_id a)"
proof -
  have r: "requests (handleSubmit env_linked example_ui) =
     [PostUpload ''hello.vrma'' None (Some ''fist''), GetAssets, PostVariant example_values 4]"
    by (simp add: handleSubmit_requests example_defs truthy_def)
  have "validateFields env_linked = Some example_values"
    and "uploadFile example_ui = Some ''hello.vrma''"
    and "upload_response env_linked = Inr \<lparr>success = True, url = ''s3/hello.vrma''\<rparr>"
    and "success \<lparr>success = True, url = ''s3/hello.vrma''\<rparr>"
    by (simp_all add: example_defs)
  from handleSubmit_links_asset_with_matching_url [OF this]
  have "\<forall>vals' aid. PostVariant vals' aid \<in> set (requests (handleSubmit env_linked example_ui)) \<longrightarrow>
          vals' = example_values \<and>
          (\<exists>assets pre a post. assets_response env_linked = Inr assets \<and>
             assets = pre @ a # post \<and>
             file_url a = url \<lparr>success = True, url = ''s3/hello.vrma''\<rparr> \<and>
             (\<forall>b\<in>set pre. file_url b \<noteq> url \<lparr>success = True, url = ''s3/hello.vrma''\<rparr>) \<and>
             aid = asset_id a)"
    by blast
  then have "PostVariant example_values 4 \<in> set (requests (handleSubmit env_linked example_ui)) \<longrightarrow>
          (\<exists>assets pre a post. assets_response env_linked = Inr assets \<and>
             assets = pre @ a # post \<and>
             file_url a = url \<lparr>success = True, url = ''s3/hello.vrma''\<rparr> \<and>
             (\<forall>b\<in>set pre. file_url b \<noteq> url \<lparr>success = True, url = ''s3/hello.vrma''\<rparr>) \<and>
             4 = asset_id a)"
    by blast
  with r show ?thesis by simp
qed

text \<open>
  Claim C3. A Variant-create request is the third and last request of its run, after the
  upload request and the asset-list request, and it is sent only when the upload response
  reports success and an asset was resolved from the list; when the upload request fails,
  reports non-success, the asset request fails or no asset matches, no Variant-create
  request is sent.
\<close>

theorem handleSubmit_variant_only_after_upload_and_asset:
  "(\<forall>vals aid. PostVariant vals aid \<in> set (requests (handleSubmit e u)) \<longrightarrow>
      (\<exists>f ti to. requests (handleSubmit e u) = [PostUpload f ti to, GetAssets, PostVariant vals aid]) \<and>
      (\<exists>up assets a. upload_response e = Inr up \<and> success up \<and>
         assets_response e = Inr assets \<and>
         find (\<lambda>a. file_url a = url up) assets = Some a \<and> aid = asset_id a))
   \<and> ((case upload_response e of
          Inl err \<Rightarrow> True
        | Inr up \<Rightarrow> \<not> success up \<or>
            (case assets_response e of
               Inl err \<Rightarrow> True
             | Inr assets \<Rightarrow> find (\<lambda>a. file_url a = url up) assets = None)) \<longrightarrow>
       (\<forall>vals aid. PostVariant vals aid \<notin> set (requests (handleSubmit e u))))"
proof (intro conjI allI impI)
  fix vals aid
  assume m: "PostVariant vals aid \<in> set (requests (handleSubmit e u))"
  from m obtain v where v: "validateFields e = Some v"
    by (cases "validateFields e") (simp_all add: handleSubmit_requests)
  from m v obtain f where f: "uploadFile u = Some f"
    by (cases "uploadFile u") (simp_all add: handleSubmit_requests)
  from m v f obtain up where up: "upload_response e = Inr up"
    by (cases "upload_response e") (simp_all add: handleSubmit_requests)
  from m v f up have s: "success up"
    by (cases "success up") (simp_all add: handleSubmit_requests)
  from m v f up s obtain assets where as: "assets_response e = Inr assets"
    by (cases "assets_response e") (simp_all add: handleSubmit_requests)
  from m v f up s as obtain a where a: "find (\<lambda>a. file_url a = url up) assets = Some a"
    by (cases "find (\<lambda>a. file_url a = url up) assets") (simp_all add: handleSubmit_requests)
  from m v f up s as a have eq: "vals = v" "aid = asset_id a"
    by (simp_all add: handleSubmit_requests)
  from v f up s as a eq
  show "\<exists>f ti to. requests (handleSubmit e u) = [PostUpload f ti to, GetAssets, PostVariant vals aid]"
    by (simp add: handleSubmit_requests)
  from up s as a eq
  show "\<exists>up assets a. upload_response e = Inr up \<and> success up \<and>
         assets_response e = Inr assets \<and>
         find (\<lambda>a. file_url a = url up) assets = Some a \<and> aid = asset_id a"
    by blast
next
  fix vals aid
  assume "case upload_response e of
          Inl err \<Rightarrow> True
        | Inr up \<Rightarrow> \<not> success up \<or>
            (case assets_response e of
               Inl err \<Rightarrow> True
             | Inr assets \<Rightarrow> find (\<lambda>a. file_url a = url up) assets = None)"
  then show "PostVariant vals aid \<notin> set (requests (handleSubmit e u))"
    by (auto simp add: handleSubmit_requests split: sum.splits option.splits)
qed

theorem handleSubmit_variant_only_after_upload_and_asset_witness:
  "requests (handleSubmit env_linked example_ui) =
     [PostUpload ''hello.vrma'' None (Some ''fist''), GetAssets, PostVariant example_values 4]
   \<and> find (\<lambda>a. file_url a = ''s3/hello.vrma'') example_assets =
        Some \<lparr>asset_id = 4, file_url = ''s3/hello.vrma''\<rparr>
   \<and> requests (handleSubmit env_upload_throws example_ui) =
        [PostUpload ''hello.vrma'' None (Some ''fist'')]
   \<and> PostVariant example_values 4 \<notin> set (requests (handleSubmit env_asset_missing example_ui))"
proof -
  have "case upload_response env_asset_missing of
          Inl err \<Rightarrow> True
        | Inr up \<Rightarrow> \<not> success up \<or>
            (case assets_response env_asset_missing of
               Inl err \<Rightarrow> True
             | Inr assets \<Rightarrow> find (\<lambda>a. file_url a = url up) assets = None)"
    by (simp add: example_defs)
  with handleSubmit_variant_only_after_upload_and_asset [of env_asset_missing example_ui]
  have "PostVariant example_values 4 \<notin> set (requests (handleSubmit env_asset_missing example_ui))"
    by blast
  then show ?thesis
    by (simp add: handleSubmit_requests example_defs truthy_def)
qed

text \<open>
  Claim C2 does not hold as stated. A run whose upload request throws (nothing stored) and
  a run whose upload stored the blob \<open>s3/hello.vrma\<close> but whose asset could not be
  resolved show the operator the same island state and the same message
  \<open>Error occurred\<close>: the report names neither the failed step nor the orphaned key. Only
  the console entries differ.
\<close>

theorem handleSubmit_error_report_is_generic_counterexample:
  "requests (handleSubmit env_upload_throws example_ui) =
     [PostUpload ''hello.vrma'' None (Some ''fist'')]
   \<and> console (handleSubmit env_upload_throws example_ui) = [RequestFailed]
   \<and> requests (handleSubmit env_asset_missing example_ui) =
     [PostUpload ''hello.vrma'' None (Some ''fist''), GetAssets]
   \<and> console (handleSubmit env_asset_missing example_ui) = [Error ''Asset not found after upload'']
   \<and> islandState (handleSubmit env_asset_missing example_ui) = ''error''
   \<and> islandMessage (handleSubmit env_asset_missing example_ui) = ''Error occurred''
   \<and> islandState (handleSubmit env_upload_throws example_ui) =
       islandState (handleSubmit env_asset_missing example_ui)
   \<and> islandMessage (handleSubmit env_upload_throws example_ui) =
       islandMessage (handleSubmit env_asset_missing example_ui)
   \<and> message_error (handleSubmit env_asset_missing example_ui) = []"
  by (simp add: handleSubmit_defs example_defs)

text \<open>
  Claim C2, as amended. Whenever a run of \<open>handleSubmit\<close> fails after the upload has
  succeeded, so that the blob is stored (the asset request fails, no asset matches, or the
  Variant request fails), the operator sees the island in state \<open>error\<close> with the fixed
  message \<open>Error occurred\<close>, cleared after 3000 ms, and no toast, whatever the failing
  step and whatever the URL of the stored blob. The error that names the step (the error
  of the failed request, or \<open>Asset not found after upload\<close>) is the one entry written to
  the console; the requests sent up to the failure are listed.
\<close>

theorem handleSubmit_failure_report:
  assumes "validateFields e = Some vals" and "uploadFile u = Some f"
    and "upload_response e = Inr up" and "success up"
    and "case assets_response e of
           Inl err \<Rightarrow> True
         | Inr assets \<Rightarrow>
             find (\<lambda>a. file_url a = url up) assets = None \<or>
             (case variant_response e of Inl err \<Rightarrow> True | Inr ok \<Rightarrow> False)"
  shows "islandState (handleSubmit e u) = ''error''
       \<and> islandMessage (handleSubmit e u) = ''Error occurred''
       \<and> message_error (handleSubmit e u) = []
       \<and> timers (handleSubmit e u) = [(3000, IslandIdle)]
       \<and> (\<forall>err. assets_response e = Inl err \<longrightarrow>
             console (handleSubmit e u) = [err] \<and>
             (\<exists>ti to. requests (handleSubmit e u) = [PostUpload f ti to, GetAssets]))
       \<and> (\<forall>assets. assets_response e = Inr assets \<longrightarrow>
             find (\<lambda>a. file_url a = url up) assets = None \<longrightarrow>
             console (handleSubmit e u) = [Error ''Asset not found after upload''] \<and>
             (\<exists>ti to. requests (handleSubmit e u) = [PostUpload f ti to, GetAssets]))
       \<and> (\<forall>assets a err. assets_response e = Inr assets \<longrightarrow>
             find (\<lambda>a. file_url a = url up) assets = Some a \<longrightarrow>
             variant_response e = Inl err \<longrightarrow>
             console (handleSubmit e u) = [err] \<and>
             (\<exists>ti to. requests (handleSubmit e u) =
                [PostUpload f ti to, GetAssets, PostVariant vals (asset_id a)]))"
proof (cases "assets_response e")
  case (Inl err)
  with assms(1-4) show ?thesis by (simp add: handleSubmit_defs)
next
  case (Inr assets)
  show ?thesis
  proof (cases "find (\<lambda>a. file_url a = url up) assets")
    case None
    with Inr assms(1-4) show ?thesis by (simp add: handleSubmit_defs)
  next
    case (Some a)
    with Inr assms(5) obtain err where "variant_response e = Inl err"
      by (cases "variant_response e") simp_all
    with Some Inr assms(1-4) show ?thesis by (simp add: handleSubmit_defs)
  qed
qed

theorem handleSubmit_failure_report_witness:
  "islandState (handleSubmit env_asset_missing example_ui) = ''error''
   \<and> islandMessage (handleSubmit env_asset_missing example_ui) = ''Error occurred''
   \<and> message_error (handleSubmit env_asset_missing example_ui) = []
   \<and> timers (handleSubmit env_asset_missing example_ui) = [(3000, IslandIdle)]
   \<and> console (handleSubmit env_asset_missing example_ui) = [Error ''Asset not found after upload'']"
proof -
  have "validateFields env_asset_missing = Some example_values"
    and "uploadFile example_ui = Some ''hello.vrma''"
    and "upload_response env_asset_missing = Inr \<lparr>success = True, url = ''s3/hello.vrma''\<rparr>"
    and "success \<lparr>success = True, url = ''s3/hello.vrma''\<rparr>"
    and "case assets_response env_asset_missing of
           Inl err \<Rightarrow> True
         | Inr assets \<Rightarrow>
             find (\<lambda>a. file_url a = url \<lparr>success = True, url = ''s3/hello.vrma''\<rparr>) assets = None \<or>
             (case variant_response env_asset_missing of Inl err \<Rightarrow> True | Inr ok \<Rightarrow> False)"
    by (simp_all add: example_defs)
  from handleSubmit_failure_report [OF this]
  show ?thesis by (simp add: example_defs)
qed

section \<open>Properties of the search request\<close>

lemma param_str_None: "param_str k None = []"
  by (simp add: param_str_def truthy_def)

lemma param_str_Some: "param_str k (Some a) = (if a = [] then [] else [(k, Str a)])"
  by (simp add: param_str_def truthy_def)

lemma param_num_None: "param_num k None = []"
  by (simp add: param_num_def truthy_num_def)

lemma param_num_Some: "param_num k (Some n) = (if n = 0 then [] else [(k, Num n)])"
  by (simp add: param_num_def truthy_num_def)

lemma truthy_simps: "truthy None = False" "truthy (Some a) = (a \<noteq> [])"
  by (simp_all add: truthy_def)

lemma truthy_num_simps: "truthy_num None = False" "truthy_num (Some n) = (n \<noteq> 0)"
  by (simp_all add: truthy_num_def)

lemmas param_simps = param_str_None param_str_Some param_num_None param_num_Some
  truthy_simps truthy_num_simps

lemma map_of_param_str:
  "map_of (param_str k v) j = (if j = k \<and> truthy v then map_option Str v else None)"
  by (cases v) (simp_all add: param_simps)

lemma map_of_param_str_app:
  "map_of (param_str k v @ rest) j =
     (if j = k \<and> truthy v then map_option Str v else map_of rest j)"
  by (cases v) (simp_all add: param_simps)

lemma map_of_param_num_app:
  "map_of (param_num k v @ rest) j =
     (if j = k \<and> truthy_num v then map_option Num v else map_of rest j)"
  by (cases v) (simp_all add: param_simps)

lemma keys_param_str: "map fst (param_str k v) = (if truthy v then [k] else [])"
  by (cases v) (simp_all add: param_simps)

lemma keys_param_num: "map fst (param_num k v) = (if truthy_num v then [k] else [])"
  by (cases v) (simp_all add: param_simps)

lemma search_step_inv:
  assumes "search_inv s" and "codes_nonempty ev"
  shows "search_inv (search_step s ev)"
proof (cases ev)
  case (SetQuery q)
  with assms show ?thesis by (simp add: search_inv_def)
next
  case (PickLanguage opt)
  with assms show ?thesis
    by (cases opt) (auto simp add: search_inv_def list_all_length)
next
  case (PickEmotion opt)
  have "\<forall>i < length emotion_options. emotion_options ! i \<noteq> []"
    by (simp add: emotion_options_def less_Suc_eq nth_Cons')
  with PickEmotion assms show ?thesis
    by (cases opt) (auto simp add: search_inv_def)
next
  case (PickFps opt)
  have "\<forall>i < length fps_options. fps_options ! i \<noteq> 0"
    by (simp add: fps_options_def less_Suc_eq nth_Cons')
  with PickFps assms show ?thesis
    by (cases opt) (auto simp add: search_inv_def)
next
  case (PickSort i)
  with assms show ?thesis by (auto simp add: search_inv_def)
next
  case (LanguagesLoaded ls)
  with assms show ?thesis by (simp add: search_inv_def)
qed

lemma search_foldl_inv:
  "search_inv s \<Longrightarrow> list_all codes_nonempty evs \<Longrightarrow> search_inv (foldl search_step s evs)"
  by (induction evs arbitrary: s) (simp_all add: search_step_inv)

lemma search_init_inv: "search_inv search_init"
  by (simp add: search_inv_def search_init_def sort_options_def)

lemma search_after_inv: "list_all codes_nonempty evs \<Longrightarrow> search_inv (search_after evs)"
  unfolding search_after_def by (rule search_foldl_inv [OF search_init_inv])

lemma sortBy_step:
  "sortBy s \<in> set sort_options \<Longrightarrow> sortBy (search_step s ev) \<in> set sort_options"
  by (cases "(s, ev)" rule: search_step.cases) auto

lemma sortBy_foldl:
  "sortBy s \<in> set sort_options \<Longrightarrow> sortBy (foldl search_step s evs) \<in> set sort_options"
  by (induction evs arbitrary: s) (simp_all add: sortBy_step)

lemma sort_option_nonempty: "x \<in> set sort_options \<Longrightarrow> x \<noteq> []"
  by (auto simp add: sort_options_def)

lemma map_of_search_params:
  "map_of (search_params s) key =
     (if key = ''q'' then (if query s = [] then None else Some (Str (query s)))
      else if key = ''language_id'' then (if truthy (language s) then map_option Str (language s) else None)
      else if key = ''emotion'' then (if truthy (emotionSel s) then map_option Str (emotionSel s) else None)
      else if key = ''min_fps'' then (if truthy_num (minFps s) then map_option Num (minFps s) else None)
      else if key = ''max_fps'' then (if truthy_num (maxFps s) then map_option Num (maxFps s) else None)
      else if key = ''min_duration'' then (if truthy_num (minDuration s) then map_option Num (minDuration s) else None)
      else if key = ''max_duration'' then (if truthy_num (maxDuration s) then map_option Num (maxDuration s) else None)
      else if key = ''sort_by'' then (if sortBy s = [] then None else Some (Str (sortBy s)))
      else None)"
  by (simp add: search_params_def map_of_param_str_app map_of_param_num_app map_of_param_str
      truthy_simps del: map_of_append)

lemma distinct_search_keys: "distinct (map fst (search_params s))"
  by (simp add: search_params_def keys_param_str keys_param_num)

lemma search_keys_subset:
  "set (map fst (search_params s)) \<subseteq>
     {''q'', ''language_id'', ''emotion'', ''min_fps'', ''max_fps'',
      ''min_duration'', ''max_duration'', ''sort_by''}"
  by (auto simp add: search_params_def keys_param_str keys_param_num split: if_splits)

text \<open>
  Claim C9. The sort key starts as \<open>-created_at\<close>; after any sequence of events of the
  page it is one of the four options \<open>-created_at\<close>, \<open>created_at\<close>, \<open>duration\<close>,
  \<open>-duration\<close> of the select, and the search request carries it as \<open>sort_by\<close>.
\<close>

theorem search_sort_by_in_enumeration:
  "sortBy search_init = ''-created_at''
   \<and> set sort_options = {''-created_at'', ''created_at'', ''duration'', ''-duration''}
   \<and> sortBy (search_after evs) \<in> set sort_options
   \<and> handleSearch (search_after evs) = [GetSearch (search_params (search_after evs))]
   \<and> map_of (search_params (search_after evs)) ''sort_by'' = Some (Str (sortBy (search_after evs)))"
proof -
  have "sortBy search_init \<in> set sort_options"
    by (simp add: search_init_def sort_options_def)
  then have m: "sortBy (search_after evs) \<in> set sort_options"
    unfolding search_after_def by (rule sortBy_foldl)
  then have "sortBy (search_after evs) \<noteq> []" by (rule sort_option_nonempty)
  then have "map_of (search_params (search_after evs)) ''sort_by'' =
      Some (Str (sortBy (search_after evs)))"
    by (simp add: map_of_search_params)
  with m show ?thesis
    by (simp add: search_init_def sort_options_def handleSearch_def)
qed

theorem search_sort_by_in_enumeration_witness:
  "sortBy (search_after example_search_events) = ''-duration''
   \<and> map_of (search_params (search_after example_search_events)) ''sort_by'' = Some (Str ''-duration'')"
proof -
  have "sortBy (search_after example_search_events) = ''-duration''"
    by (simp add: search_after_def example_search_events_def search_init_def sort_options_def)
  with search_sort_by_in_enumeration [of example_search_events] show ?thesis by simp
qed

lemma search_after_snoc: "search_after (evs @ [ev]) = search_step (search_after evs) ev"
  by (simp add: search_after_def)

lemma search_step_frame:
  "key \<notin> set (controls ev) \<Longrightarrow>
   map_of (search_params (search_step s ev)) key = map_of (search_params s) key"
  by (cases "(s, ev)" rule: search_step.cases) (simp_all add: map_of_search_params)

lemma search_step_languages:
  "languages (search_step s ev) = (case ev of LanguagesLoaded ls \<Rightarrow> ls | _ \<Rightarrow> languages s)"
  by (cases "(s, ev)" rule: search_step.cases) simp_all

text \<open>
  Claim C6 does not hold as stated. When the server delivers a language whose code is the
  empty string and the operator selects it, the language filter is set in the state, yet
  the request carries no \<open>language_id\<close>: \<open>handleSearch\<close> tests the truthiness of the
  value, and the empty string is falsy.
\<close>

theorem search_empty_language_code_omitted_counterexample:
  "language (search_after empty_code_events) = Some []
   \<and> map_of (search_params (search_after empty_code_events)) ''language_id'' = None
   \<and> handleSearch (search_after empty_code_events) = [GetSearch [(''sort_by'', Str ''-created_at'')]]"
  by (simp add: empty_code_events_def search_after_def search_init_def handleSearch_def
      search_params_def param_simps)

text \<open>
  Claim C6, as amended. Provided every language code the server delivers is non-empty,
  in every state the page can reach \<open>handleSearch\<close> sends one request; its parameters
  have distinct keys among the seven filter keys and \<open>sort_by\<close>; each filter key is
  present, with the value of the state, exactly when that filter is set (\<open>q\<close> when the
  search text is not empty, the others when their state is not \<open>null\<close>); the duration
  filters, for which the page has no control, are never sent. The state follows the
  operator: after typing a search text the request carries it as \<open>q\<close> (none for the
  empty text); after picking a language, an emotion or a frame rate the request carries
  the picked option, and none after picking the \<open>null\<close> button; a control changes no
  parameter but its own; and the language buttons are those of the list last delivered.
\<close>

theorem search_request_has_exactly_the_set_filters:
  assumes "list_all codes_nonempty evs"
  shows "handleSearch (search_after evs) = [GetSearch (search_params (search_after evs))]
   \<and> distinct (map fst (search_params (search_after evs)))
   \<and> set (map fst (search_params (search_after evs))) \<subseteq>
        {''q'', ''language_id'', ''emotion'', ''min_fps'', ''max_fps'',
         ''min_duration'', ''max_duration'', ''sort_by''}
   \<and> map_of (search_params (search_after evs)) ''q'' =
        (if query (search_after evs) = [] then None else Some (Str (query (search_after evs))))
   \<and> map_of (search_params (search_after evs)) ''language_id'' =
        map_option Str (language (search_after evs))
   \<and> map_of (search_params (search_after evs)) ''emotion'' =
        map_option Str (emotionSel (search_after evs))
   \<and> map_of (search_params (search_after evs)) ''min_fps'' =
        map_option Num (minFps (search_after evs))
   \<and> map_of (search_params (search_after evs)) ''max_fps'' =
        map_option Num (maxFps (search_after evs))
   \<and> map_of (search_params (search_after evs)) ''min_duration'' =
        map_option Num (minDuration (search_after evs))
   \<and> map_of (search_params (search_after evs)) ''max_duration'' =
        map_option Num (maxDuration (search_after evs))
   \<and> map_of (search_params (search_after evs)) ''min_duration'' = None
   \<and> map_of (search_params (search_after evs)) ''max_duration'' = None
   \<and> (\<forall>q. map_of (search_params (search_after (evs @ [SetQuery q]))) ''q'' =
          (if q = [] then None else Some (Str q)))
   \<and> map_of (search_params (search_after (evs @ [PickLanguage None]))) ''language_id'' = None
   \<and> (\<forall>i. i < length (languages (search_after evs)) \<longrightarrow>
          map_of (search_params (search_after (evs @ [PickLanguage (Some i)]))) ''language_id'' =
            Some (Str (lang_code (languages (search_after evs) ! i))))
   \<and> map_of (search_params (search_after (evs @ [PickEmotion None]))) ''emotion'' = None
   \<and> (\<forall>i. i < length emotion_options \<longrightarrow>
          map_of (search_params (search_after (evs @ [PickEmotion (Some i)]))) ''emotion'' =
            Some (Str (emotion_options ! i)))
   \<and> map_of (search_params (search_after (evs @ [PickFps None]))) ''min_fps'' = None
   \<and> map_of (search_params (search_after (evs @ [PickFps None]))) ''max_fps'' = None
   \<and> (\<forall>i. i < length fps_options \<longrightarrow>
          map_of (search_params (search_after (evs @ [PickFps (Some i)]))) ''min_fps'' =
            Some (Num (fps_options ! i)) \<and>
          map_of (search_params (search_after (evs @ [PickFps (Some i)]))) ''max_fps'' =
            Some (Num (fps_options ! i)))
   \<and> (\<forall>ev key. key \<notin> set (controls ev) \<longrightarrow>
          map_of (search_params (search_after (evs @ [ev]))) key =
          map_of (search_params (search_after evs)) key)
   \<and> (\<forall>ev. languages (search_after (evs @ [ev])) =
          (case ev of LanguagesLoaded ls \<Rightarrow> ls | _ \<Rightarrow> languages (search_after evs)))"
proof -
  let ?s = "search_after evs"
  from assms have inv: "search_inv ?s" by (rule search_after_inv)
  have l: "(if truthy (language ?s) then map_option Str (language ?s) else None) =
        map_option Str (language ?s)"
    using inv by (cases "language ?s") (simp_all add: search_inv_def truthy_simps)
  have e: "(if truthy (emotionSel ?s) then map_option Str (emotionSel ?s) else None) =
        map_option Str (emotionSel ?s)"
    using inv by (cases "emotionSel ?s") (simp_all add: search_inv_def truthy_simps)
  have n1: "(if truthy_num (minFps ?s) then map_option Num (minFps ?s) else None) =
        map_option Num (minFps ?s)"
    using inv by (cases "minFps ?s") (simp_all add: search_inv_def truthy_num_simps)
  have n2: "(if truthy_num (maxFps ?s) then map_option Num (maxFps ?s) else None) =
        map_option Num (maxFps ?s)"
    using inv by (cases "maxFps ?s") (simp_all add: search_inv_def truthy_num_simps)
  have n3: "minDuration ?s = None" and n4: "maxDuration ?s = None"
    using inv by (simp_all add: search_inv_def)
  have state: "handleSearch ?s = [GetSearch (search_params ?s)]
   \<and> distinct (map fst (search_params ?s))
   \<and> set (map fst (search_params ?s)) \<subseteq>
        {''q'', ''language_id'', ''emotion'', ''min_fps'', ''max_fps'',
         ''min_duration'', ''max_duration'', ''sort_by''}
   \<and> map_of (search_params ?s) ''q'' = (if query ?s = [] then None else Some (Str (query ?s)))
   \<and> map_of (search_params ?s) ''language_id'' = map_option Str (language ?s)
   \<and> map_of (search_params ?s) ''emotion'' = map_option Str (emotionSel ?s)
   \<and> map_of (search_params ?s) ''min_fps'' = map_option Num (minFps ?s)
   \<and> map_of (search_params ?s) ''max_fps'' = map_option Num (maxFps ?s)
   \<and> map_of (search_params ?s) ''min_duration'' = map_option Num (minDuration ?s)
   \<and> map_of (search_params ?s) ''max_duration'' = map_option Num (maxDuration ?s)
   \<and> map_of (search_params ?s) ''min_duration'' = None
   \<and> map_of (search_params ?s) ''max_duration'' = None"
    using distinct_search_keys [of ?s] search_keys_subset [of ?s]
    by (simp add: handleSearch_def map_of_search_params l e n1 n2 n3 n4 truthy_num_simps)
  have q: "\<forall>q. map_of (search_params (search_after (evs @ [SetQuery q]))) ''q'' =
          (if q = [] then None else Some (Str q))"
    by (simp add: search_after_snoc map_of_search_params)
  have l0: "map_of (search_params (search_after (evs @ [PickLanguage None]))) ''language_id'' = None"
    by (simp add: search_after_snoc map_of_search_params truthy_simps)
  have l1: "\<forall>i. i < length (languages ?s) \<longrightarrow>
          map_of (search_params (search_after (evs @ [PickLanguage (Some i)]))) ''language_id'' =
            Some (Str (lang_code (languages ?s ! i)))"
  proof (intro allI impI)
    fix i assume i: "i < length (languages ?s)"
    with inv have "lang_code (languages ?s ! i) \<noteq> []"
      by (simp add: search_inv_def list_all_length)
    with i show "map_of (search_params (search_after (evs @ [PickLanguage (Some i)]))) ''language_id'' =
            Some (Str (lang_code (languages ?s ! i)))"
      by (simp add: search_after_snoc map_of_search_params truthy_simps)
  qed
  have e0: "map_of (search_params (search_after (evs @ [PickEmotion None]))) ''emotion'' = None"
    by (simp add: search_after_snoc map_of_search_params truthy_simps)
  have e1: "\<forall>i. i < length emotion_options \<longrightarrow>
          map_of (search_params (search_after (evs @ [PickEmotion (Some i)]))) ''emotion'' =
            Some (Str (emotion_options ! i))"
  proof (intro allI impI)
    fix i assume i: "i < length emotion_options"
    have "\<forall>i < length emotion_options. emotion_options ! i \<noteq> []"
      by (simp add: emotion_options_def less_Suc_eq nth_Cons')
    with i have "emotion_options ! i \<noteq> []" by blast
    with i show "map_of (search_params (search_after (evs @ [PickEmotion (Some i)]))) ''emotion'' =
            Some (Str (emotion_options ! i))"
      by (simp add: search_after_snoc map_of_search_params truthy_simps)
  qed
  have f0: "map_of (search_params (search_after (evs @ [PickFps None]))) ''min_fps'' = None"
    "map_of (search_params (search_after (evs @ [PickFps None]))) ''max_fps'' = None"
    by (simp_all add: search_after_snoc map_of_search_params truthy_num_simps)
  have f1: "\<forall>i. i < length fps_options \<longrightarrow>
          map_of (search_params (search_after (evs @ [PickFps (Some i)]))) ''min_fps'' =
            Some (Num (fps_options ! i)) \<and>
          map_of (search_params (search_after (evs @ [PickFps (Some i)]))) ''max_fps'' =
            Some (Num (fps_options ! i))"
  proof (intro allI impI)
    fix i assume i: "i < length fps_options"
    have "\<forall>i < length fps_options. fps_options ! i \<noteq> 0"
      by (simp add: fps_options_def less_Suc_eq nth_Cons')
    with i have "fps_options ! i \<noteq> 0" by blast
    with i show "map_of (search_params (search_after (evs @ [PickFps (Some i)]))) ''min_fps'' =
            Some (Num (fps_options ! i)) \<and>
          map_of (search_params (search_after (evs @ [PickFps (Some i)]))) ''max_fps'' =
            Some (Num (fps_options ! i))"
      by (simp add: search_after_snoc map_of_search_params truthy_num_simps)
  qed
  have fr: "\<forall>ev key. key \<notin> set (controls ev) \<longrightarrow>
          map_of (search_params (search_after (evs @ [ev]))) key =
          map_of (search_params ?s) key"
    by (simp add: search_after_snoc search_step_frame)
  have la: "\<forall>ev. languages (search_after (evs @ [ev])) =
          (case ev of LanguagesLoaded ls \<Rightarrow> ls | _ \<Rightarrow> languages ?s)"
    by (simp add: search_after_snoc search_step_languages)
  from state q l0 l1 e0 e1 f0 f1 fr la show ?thesis
    by (elim conjE, intro conjI) assumption+
qed

theorem search_request_has_exactly_the_set_filters_witness:
  "search_params (search_after example_search_events) =
     [(''q'', Str ''hello''), (''language_id'', Str ''ru-RSL''),
      (''min_fps'', Num 30), (''max_fps'', Num 30), (''sort_by'', Str ''-duration'')]
   \<and> map_of (search_params (search_after example_search_events)) ''emotion'' = None
   \<and> map_of (search_params (search_after example_search_events)) ''min_fps'' = Some (Num 30)
   \<and> map_of (search_params (search_after (example_search_events @ [PickEmotion (Some 1)]))) ''emotion'' =
        Some (Str ''Happy'')"
proof -
  have ev: "list_all codes_nonempty example_search_events"
    by (simp add: example_search_events_def)
  have st: "search_after example_search_events =
      \<lparr>query = ''hello'', language = Some ''ru-RSL'', emotionSel = None, minFps = Some 30,
       maxFps = Some 30, minDuration = None, maxDuration = None, sortBy = ''-duration'',
       languages = [\<lparr>lang_code = ''ru-RSL'', lang_name = ''Russian Sign Language''\<rparr>]\<rparr>"
    by (simp add: search_after_def example_search_events_def search_init_def sort_options_def
        fps_options_def)
  have p: "search_params (search_after example_search_events) =
     [(''q'', Str ''hello''), (''language_id'', Str ''ru-RSL''),
      (''min_fps'', Num 30), (''max_fps'', Num 30), (''sort_by'', Str ''-duration'')]"
    unfolding st by (simp add: search_params_def param_simps)
  from search_request_has_exactly_the_set_filters [OF ev]
  have a: "map_of (search_params (search_after example_search_events)) ''emotion'' =
        map_option Str (emotionSel (search_after example_search_events))"
    and b: "map_of (search_params (search_after example_search_events)) ''min_fps'' =
        map_option Num (minFps (search_after example_search_events))"
    and c: "\<forall>i. i < length emotion_options \<longrightarrow>
          map_of (search_params (search_after (example_search_events @ [PickEmotion (Some i)]))) ''emotion'' =
            Some (Str (emotion_options ! i))"
    by blast+
  have "(1::nat) < length emotion_options" by (simp add: emotion_options_def)
  with c have "map_of (search_params (search_after (example_search_events @ [PickEmotion (Some 1)]))) ''emotion'' =
            Some (Str (emotion_options ! 1))" by blast
  then have d: "map_of (search_params (search_after (example_search_events @ [PickEmotion (Some 1)]))) ''emotion'' =
        Some (Str ''Happy'')"
    by (simp add: emotion_options_def)
  from p a b d show ?thesis unfolding st by simp
qed

section \<open>Properties of gloss creation\<close>

lemma toUpperCase_hello: "toUpperCase ''hello'' = ''HELLO''"
  by (simp add: toUpperCase_def toUpperCase_char_def lower_letters_def upper_letters_def)

lemma handleCreateGloss_posts_uppercase:
  "PostGloss b \<in> set (requests (handleCreateGloss resp u)) \<Longrightarrow>
     gb_name b = toUpperCase (newGlossName u)"
  by (cases resp) (auto simp add: handleCreateGloss_def Let_def start_def send_def split: if_splits)

lemma legacy_handleCreateGloss_posts_uppercase:
  "Req (PostGloss b) \<in> set (legacy_handleCreateGloss resp tbl f) \<Longrightarrow>
     gb_name b = toUpperCase (lf_name f)"
  by (cases resp) (auto simp add: legacy_handleCreateGloss_def Let_def split: if_splits)

text \<open>
  Claim C4 fails on the Glosses page. Adding a gloss there with the name \<open>hello\<close> posts
  the name as entered, while its uppercase normalization is \<open>HELLO\<close>; the inline creation
  of the unified import page and the legacy client both post \<open>HELLO\<close> for the same
  entry.
\<close>

theorem Glosses_handleOk_posts_name_as_entered:
  "snd (Glosses_handleOk (Inr ()) (Inr []) example_gloss_page) =
     [Req (PostGloss \<lparr>gb_name = ''hello'', gb_synonyms = None, gb_description = None\<rparr>),
      Toast ToastSuccess, Req (GetGlosses (Some []))]
   \<and> toUpperCase ''hello'' = ''HELLO''
   \<and> requests (handleCreateGloss (Inl RequestFailed) (ui0\<lparr>newGlossName := ''hello''\<rparr>)) =
       [PostGloss \<lparr>gb_name = ''HELLO'', gb_synonyms = None, gb_description = None\<rparr>]
   \<and> legacy_handleCreateGloss (Inr True) False
        \<lparr>lf_name = ''hello'', lf_synonyms = [], lf_description = []\<rparr> =
       [Req (PostGloss \<lparr>gb_name = ''HELLO'', gb_synonyms = Some [], gb_description = Some []\<rparr>),
        Toast ToastSuccess]"
  by (simp add: Glosses_handleOk_def validate_gloss_form_def fetchGlosses_def
      example_gloss_page_def toUpperCase_hello handleCreateGloss_def start_def send_def ui0_def
      legacy_handleCreateGloss_def Let_def)

section \<open>Properties of variant deletion\<close>

lemma variants_run_checks:
  "isDeleteModalVisible p \<Longrightarrow>
   variants_run p (map Check bs) =
     (p\<lparr>deleteWithFile := (if bs = [] then deleteWithFile p else last bs)\<rparr>, [])"
proof (induction bs arbitrary: p)
  case Nil
  then show ?case by simp
next
  case (Cons b bs)
  have "isDeleteModalVisible (p\<lparr>deleteWithFile := b\<rparr>)" using Cons.prems by simp
  from Cons.IH [OF this] Cons.prems show ?case by simp
qed

lemma variants_run_append:
  "variants_run p (xs @ ys) =
     (let (p1, e1) = variants_run p xs; (p2, e2) = variants_run p1 ys in (p2, e1 @ e2))"
  by (induction xs arbitrary: p) (simp_all add: split_beta Let_def)

lemma filter_is_delete_fetchData: "filter is_delete (fetchData ok p) = []"
  by (simp add: fetchData_def)

lemma filter_is_delete_confirmDelete:
  "filter is_delete (snd (confirmDelete resp ok p)) =
     [Req (DeleteVariant (deleteTarget p) (deleteWithFile p))]"
  by (cases resp) (simp_all add: confirmDelete_def filter_is_delete_fetchData)

text \<open>
  Claim C8. Opening the delete dialog for a variant sets the target, shows the dialog and
  resets the delete-file flag to false; confirming sends exactly one DELETE request, for
  the target and with the flag of the state; and after opening the dialog for \<open>i\<close> and
  any number of checkbox changes, confirming sends exactly one DELETE request for \<open>i\<close>
  whose \<open>delete_file\<close> is the last checkbox value, or false if the box was never touched.
\<close>

theorem variant_delete_sends_checkbox_choice:
  "deleteWithFile (handleDelete i p) = False
   \<and> deleteTarget (handleDelete i p) = Some i
   \<and> isDeleteModalVisible (handleDelete i p)
   \<and> filter is_delete (snd (confirmDelete resp ok p)) =
       [Req (DeleteVariant (deleteTarget p) (deleteWithFile p))]
   \<and> filter is_delete
       (snd (variants_run p (ClickDelete i # map Check bs @ [ConfirmDelete resp ok]))) =
       [Req (DeleteVariant (Some i) (if bs = [] then False else last bs))]"
proof -
  let ?q = "handleDelete i p"
  have v: "isDeleteModalVisible ?q" by (simp add: handleDelete_def)
  have "variants_run ?q (map Check bs @ [ConfirmDelete resp ok]) =
      (let p1 = ?q\<lparr>deleteWithFile := (if bs = [] then deleteWithFile ?q else last bs)\<rparr>;
           (p2, e2) = variants_run p1 [ConfirmDelete resp ok] in (p2, e2))"
    by (simp add: variants_run_append variants_run_checks [OF v] Let_def)
  then have "filter is_delete (snd (variants_run ?q (map Check bs @ [ConfirmDelete resp ok]))) =
      [Req (DeleteVariant (Some i) (if bs = [] then False else last bs))]"
    using filter_is_delete_confirmDelete
      [of resp ok "?q\<lparr>deleteWithFile := (if bs = [] then deleteWithFile ?q else last bs)\<rparr>"]
    by (simp add: split_beta Let_def handleDelete_def)
  then show ?thesis
    by (simp add: filter_is_delete_confirmDelete split_beta Let_def) (simp add: handleDelete_def)
qed

theorem variant_delete_sends_checkbox_choice_witness:
  "snd (variants_run variants_init [ClickDelete 7, Check True, Check False, ConfirmDelete (Inr ()) True]) =
     [Req (DeleteVariant (Some 7) False), Toast ToastSuccess, Req (GetVariants []),
      Req (GetGlosses None), Req GetLanguages, Req GetAssets]
   \<and> filter is_delete
       (snd (variants_run variants_init (ClickDelete 7 # map Check [False, True] @ [ConfirmDelete (Inl RequestFailed) True]))) =
     [Req (DeleteVariant (Some 7) True)]"
proof -
  have "snd (variants_run variants_init [ClickDelete 7, Check True, Check False, ConfirmDelete (Inr ()) True]) =
     [Req (DeleteVariant (Some 7) False), Toast ToastSuccess, Req (GetVariants []),
      Req (GetGlosses None), Req GetLanguages, Req GetAssets]"
    by (simp add: variants_init_def handleDelete_def confirmDelete_def fetchData_def
        param_str_def truthy_def)
  moreover have l: "(if [False, True] = [] then False else last [False, True]) = True"
    by simp
  have "filter is_delete
       (snd (variants_run variants_init (ClickDelete 7 # map Check [False, True] @ [ConfirmDelete (Inl RequestFailed) True]))) =
     [Req (DeleteVariant (Some 7) (if [False, True] = [] then False else last [False, True]))]"
    using variant_delete_sends_checkbox_choice
      [of 7 variants_init "Inl RequestFailed" True "[False, True]"]
    by blast
  then have "filter is_delete
       (snd (variants_run variants_init (ClickDelete 7 # map Check [False, True] @ [ConfirmDelete (Inl RequestFailed) True]))) =
     [Req (DeleteVariant (Some 7) True)]"
    unfolding l .
  ultimately show ?thesis by (rule conjI)
qed

section \<open>Properties of language editing\<close>







section \<open>Properties of the file size format\<close>

lemma kilo_gt: "2 \<le> kilo" "0 < kilo" "1 < kilo"
  by (simp_all add: kilo_def)

lemma unit_index_log: "unit_index n = nat \<lfloor>log (real kilo) (real n)\<rfloor>"
  by (simp add: unit_index_def log_def)

lemma unit_index_eq:
  assumes "0 < n"
  shows "unit_index n = i \<longleftrightarrow> kilo ^ i \<le> n \<and> n < kilo ^ (i + 1)"
proof -
  from assms have "0 \<le> log (real kilo) (real n)"
    using kilo_gt by (simp add: zero_le_log_cancel_iff)
  then have nn: "0 \<le> \<lfloor>log (real kilo) (real n)\<rfloor>" by simp
  have "unit_index n = i \<longleftrightarrow> \<lfloor>log (real kilo) (real n)\<rfloor> = int i"
    using nn unfolding unit_index_log by linarith
  also have "\<dots> \<longleftrightarrow> kilo ^ i \<le> n \<and> n < kilo ^ (i + 1)"
    using kilo_gt(1) assms by (rule floor_log_nat_eq_powr_iff)
  finally show ?thesis .
qed

lemma unit_index_bounds:
  "0 < n \<Longrightarrow> kilo ^ unit_index n \<le> n \<and> n < kilo ^ (unit_index n + 1)"
  using unit_index_eq [of n "unit_index n"] by simp

lemma unit_index_in_range:
  assumes "0 < n"
  shows "unit_index n < length sizes \<longleftrightarrow> n < 1024 ^ 4"
proof
  assume "unit_index n < length sizes"
  then have "unit_index n + 1 \<le> 4" by (simp add: sizes_def)
  then have "kilo ^ (unit_index n + 1) \<le> kilo ^ 4"
    using kilo_gt(3) by (intro power_increasing) simp_all
  with unit_index_bounds [OF assms] have "n < kilo ^ 4" by linarith
  then show "n < 1024 ^ 4" by (simp add: kilo_def)
next
  assume "n < 1024 ^ 4"
  then have "n < kilo ^ 4" by (simp add: kilo_def)
  with unit_index_bounds [OF assms] have "kilo ^ unit_index n < kilo ^ 4" by linarith
  then have "unit_index n < 4" using kilo_gt(3) by (rule power_less_imp_less_exp [rotated])
  then show "unit_index n < length sizes" by (simp add: sizes_def)
qed

lemma rounded_hundredths_div:
  "rounded_hundredths n i = int ((200 * n + kilo ^ i) div (2 * kilo ^ i))"
proof -
  have pos: "0 < real (kilo ^ i)" using kilo_gt(2) by simp
  have "real n / real (kilo ^ i) * 100 + 1 / 2 =
        real (200 * n + kilo ^ i) / real (2 * kilo ^ i)"
    using pos by (simp add: field_simps)
  then show ?thesis
    unfolding rounded_hundredths_def by (simp only: floor_divide_of_nat_eq)
qed

lemma rounded_hundredths_near:
  "\<bar>real_of_int (rounded_hundredths n i) / 100 - real n / real (kilo ^ i)\<bar> \<le> 1 / 200"
proof -
  define y where "y = real n / real (kilo ^ i)"
  define f where "f = \<lfloor>y * 100 + 1 / 2\<rfloor>"
  have "real_of_int f \<le> y * 100 + 1 / 2" and "y * 100 + 1 / 2 < real_of_int f + 1"
    unfolding f_def by linarith+
  then have "\<bar>real_of_int f / 100 - y\<bar> \<le> 1 / 200" by linarith
  then show ?thesis unfolding f_def y_def rounded_hundredths_def .
qed

lemma sizes_nth_mem: "i < length sizes \<Longrightarrow> sizes ! i \<in> {''B'', ''KB'', ''MB'', ''GB''}"
  by (auto simp add: sizes_def less_Suc_eq nth_Cons' numeral_eq_Suc)

lemma digit_cases:
  "d < 10 \<Longrightarrow> d = 0 \<or> d = 1 \<or> d = 2 \<or> d = 3 \<or> d = 4 \<or> d = 5 \<or> d = 6 \<or> d = 7 \<or> d = 8 \<or> d = (9::nat)"
  by arith

lemma digit_char_props:
  assumes "d < 10"
  shows "is_digit (digit_char d)" and "digit_of (digit_char d) = d"
    and "digit_char d \<noteq> CHR ''.''" and "digit_char d = CHR ''0'' \<longleftrightarrow> d = 0"
  using digit_cases [OF assms]
  by (auto simp add: digit_char_def is_digit_def digit_of_def)

lemma is_digit_not_point: "is_digit c \<Longrightarrow> c \<noteq> CHR ''.''"
  by (auto simp add: is_digit_def)

lemma digits_value_snoc: "digits_value (xs @ [c]) = 10 * digits_value xs + digit_of c"
  by (simp add: digits_value_def)

lemma string_of_nat_props:
  "string_of_nat n \<noteq> [] \<and> list_all is_digit (string_of_nat n) \<and>
   digits_value (string_of_nat n) = n \<and> (0 < n \<longrightarrow> hd (string_of_nat n) \<noteq> CHR ''0'')"
proof (induction n rule: string_of_nat.induct)
  case (1 n)
  show ?case
  proof (cases "n < 10")
    case True
    then have s: "string_of_nat n = [digit_char n]" by (simp add: string_of_nat.simps)
    from digit_char_props [OF True] show ?thesis
      unfolding s by (simp add: digits_value_def)
  next
    case False
    then have s: "string_of_nat n = string_of_nat (n div 10) @ [digit_char (n mod 10)]"
      by (subst string_of_nat.simps) simp
    have m: "n mod 10 < 10" by simp
    from False have p: "0 < n div 10" by simp
    from "1.IH" [OF False] p have ih: "string_of_nat (n div 10) \<noteq> []"
      "list_all is_digit (string_of_nat (n div 10))"
      "digits_value (string_of_nat (n div 10)) = n div 10"
      "hd (string_of_nat (n div 10)) \<noteq> CHR ''0''"
      by simp_all
    from ih digit_char_props [OF m] show ?thesis
      unfolding s by (simp add: digits_value_snoc)
  qed
qed

lemma string_of_nat_0: "string_of_nat 0 = ''0''"
  by (simp add: string_of_nat.simps digit_char_def)

lemma takeWhile_digits:
  "list_all is_digit xs \<Longrightarrow>
   takeWhile (\<lambda>c. c \<noteq> CHR ''.'') (xs @ CHR ''.'' # ys) = xs"
  by (induction xs) (simp_all add: is_digit_not_point)

lemma takeWhile_digits_only:
  "list_all is_digit xs \<Longrightarrow> takeWhile (\<lambda>c. c \<noteq> CHR ''.'') xs = xs"
  by (induction xs) (simp_all add: is_digit_not_point)

text \<open>What \<open>number_string\<close> prints, in terms of the integer and the fraction part.\<close>

lemma number_string_cases:
  "number_string m =
     string_of_nat (nat m div 100) @
     (if nat m mod 100 = 0 then []
      else CHR ''.'' # (if nat m mod 100 mod 10 = 0 then [digit_char (nat m mod 100 div 10)]
                        else [digit_char (nat m mod 100 div 10), digit_char (nat m mod 100 mod 10)]))"
  by (simp add: number_string_def Let_def)

lemma number_string_reads_back:
  assumes "0 \<le> m"
  shows "decimal_value (number_string m) = real_of_int m / 100 \<and> two_decimals (number_string m)"
proof -
  define n where "n = nat m"
  define ip where "ip = n div 100"
  define fp where "fp = n mod 100"
  define S where "S = string_of_nat ip"
  have n: "n = 100 * ip + fp" and fp: "fp < 100" by (simp_all add: ip_def fp_def)
  from assms have mn: "real_of_int m = real n" by (simp add: n_def)
  from string_of_nat_props [of ip]
  have S: "S \<noteq> []" "list_all is_digit S" "digits_value S = ip" "0 < ip \<longrightarrow> hd S \<noteq> CHR ''0''"
    by (simp_all add: S_def)
  have lead: "S = ''0'' \<or> hd S \<noteq> CHR ''0''"
    using S(4) string_of_nat_0 by (cases "ip = 0") (simp_all add: S_def)
  have d1: "fp div 10 < 10" using fp by simp
  have d2: "fp mod 10 < 10" by simp
  show ?thesis
  proof (cases "fp = 0")
    case True
    then have ns: "number_string m = S"
      by (simp add: number_string_cases n_def [symmetric] fp_def [symmetric]
          ip_def [symmetric] S_def)
    from True n have "real n / 100 = real ip" by simp
    with S lead show ?thesis
      unfolding ns mn
      by (simp add: decimal_value_def two_decimals_def takeWhile_digits_only digits_value_def)
  next
    case False
    show ?thesis
    proof (cases "fp mod 10 = 0")
      case T: True
      with False have ns: "number_string m = S @ CHR ''.'' # [digit_char (fp div 10)]"
        by (simp add: number_string_cases n_def [symmetric] fp_def [symmetric]
            ip_def [symmetric] S_def)
      from T have "fp = 10 * (fp div 10)" by presburger
      then have "real fp = 10 * real (fp div 10)" by (metis of_nat_mult of_nat_numeral)
      with n have v: "real n / 100 = real ip + real (fp div 10) / 10" by simp
      from T False have nz: "fp div 10 \<noteq> 0" by presburger
      from S lead digit_char_props [OF d1] nz show ?thesis
        unfolding ns mn v
        by (simp add: decimal_value_def two_decimals_def takeWhile_digits digits_value_def)
    next
      case F: False
      with False have ns: "number_string m =
          S @ CHR ''.'' # [digit_char (fp div 10), digit_char (fp mod 10)]"
        by (simp add: number_string_cases n_def [symmetric] fp_def [symmetric]
            ip_def [symmetric] S_def)
      have "fp = 10 * (fp div 10) + fp mod 10" by simp
      then have rf: "real fp = 10 * real (fp div 10) + real (fp mod 10)"
        by (metis of_nat_add of_nat_mult of_nat_numeral)
      with n have v: "real n / 100 = real ip + (10 * real (fp div 10) + real (fp mod 10)) / 100"
        by simp
      from S lead digit_char_props [OF d1] digit_char_props [OF d2] F rf show ?thesis
        unfolding ns mn v
        by (simp add: decimal_value_def two_decimals_def takeWhile_digits digits_value_def)
    qed
  qed
qed

lemma rounded_hundredths_nonneg: "0 \<le> rounded_hundredths n i"
  by (simp add: rounded_hundredths_div)

text \<open>
  Claim C10. \<open>formatFileSize\<close> returns \<open>0 B\<close> for 0. For a positive byte count the
  unit index is inside the array of units exactly when the count is below \<open>1024^4\<close>. For
  every count \<open>0 < n < 1024^4\<close> the unit index \<open>i\<close> satisfies
  \<open>1024^i \<le> n < 1024^(i+1)\<close>, and the result is a decimal text, a space and the unit
  \<open>i\<close> of B, KB, MB, GB. The decimal text has digits without a leading zero and at most
  two decimals, the last not 0; the number it denotes is the number of hundredths
  \<open>(200 n + 1024^i) div (2 * 1024^i)\<close>, that is \<open>n / 1024^i\<close> rounded to the nearest
  hundredth (half up), divided by 100, and so is within half a hundredth of \<open>n / 1024^i\<close>.
\<close>

theorem formatFileSize_units:
  "formatFileSize 0 = ''0 B''
   \<and> (0 < n \<longrightarrow> (unit_index n < length sizes \<longleftrightarrow> n < 1024 ^ 4))
   \<and> (0 < n \<and> n < 1024 ^ 4 \<longrightarrow>
        formatFileSize n =
          number_string (rounded_hundredths n (unit_index n)) @ '' '' @ sizes ! unit_index n
        \<and> sizes ! unit_index n \<in> {''B'', ''KB'', ''MB'', ''GB''}
        \<and> 1024 ^ unit_index n \<le> n \<and> n < 1024 ^ (unit_index n + 1)
        \<and> \<bar>real_of_int (rounded_hundredths n (unit_index n)) / 100 -
             real n / 1024 ^ unit_index n\<bar> \<le> 1 / 200
        \<and> rounded_hundredths n (unit_index n) =
             int ((200 * n + 1024 ^ unit_index n) div (2 * 1024 ^ unit_index n))
        \<and> (\<exists>num. formatFileSize n = num @ '' '' @ sizes ! unit_index n
              \<and> two_decimals num
              \<and> decimal_value num = real_of_int (rounded_hundredths n (unit_index n)) / 100
              \<and> \<bar>decimal_value num - real n / 1024 ^ unit_index n\<bar> \<le> 1 / 200))"
proof (intro conjI impI)
  show "formatFileSize 0 = ''0 B''" by (simp add: formatFileSize_def)
next
  assume "0 < n"
  then show "unit_index n < length sizes \<longleftrightarrow> n < 1024 ^ 4" by (rule unit_index_in_range)
next
  assume a: "0 < n \<and> n < 1024 ^ 4"
  then have r: "unit_index n < length sizes" using unit_index_in_range by blast
  with a show f: "formatFileSize n =
          number_string (rounded_hundredths n (unit_index n)) @ '' '' @ sizes ! unit_index n"
    by (simp add: formatFileSize_def sizes_at_def Let_def)
  from r show "sizes ! unit_index n \<in> {''B'', ''KB'', ''MB'', ''GB''}" by (rule sizes_nth_mem)
  from a unit_index_bounds [of n] show "1024 ^ unit_index n \<le> n" by (simp add: kilo_def)
  from a unit_index_bounds [of n] show "n < 1024 ^ (unit_index n + 1)" by (simp add: kilo_def)
  from rounded_hundredths_near [of n "unit_index n"]
  show near: "\<bar>real_of_int (rounded_hundredths n (unit_index n)) / 100 -
             real n / 1024 ^ unit_index n\<bar> \<le> 1 / 200"
    by (simp add: kilo_def)
  show "rounded_hundredths n (unit_index n) =
             int ((200 * n + 1024 ^ unit_index n) div (2 * 1024 ^ unit_index n))"
    by (simp only: rounded_hundredths_div kilo_def)
  from number_string_reads_back [OF rounded_hundredths_nonneg [of n "unit_index n"]]
  have rb: "decimal_value (number_string (rounded_hundredths n (unit_index n))) =
        real_of_int (rounded_hundredths n (unit_index n)) / 100"
    and td: "two_decimals (number_string (rounded_hundredths n (unit_index n)))"
    by simp_all
  from near rb have "\<bar>decimal_value (number_string (rounded_hundredths n (unit_index n))) -
        real n / 1024 ^ unit_index n\<bar> \<le> 1 / 200"
    by (simp only:)
  with f td rb
  show "\<exists>num. formatFileSize n = num @ '' '' @ sizes ! unit_index n
              \<and> two_decimals num
              \<and> decimal_value num = real_of_int (rounded_hundredths n (unit_index n)) / 100
              \<and> \<bar>decimal_value num - real n / 1024 ^ unit_index n\<bar> \<le> 1 / 200"
    by blast
qed

lemma unit_index_1536: "unit_index 1536 = 1"
proof -
  have "kilo ^ 1 \<le> (1536::nat) \<and> (1536::nat) < kilo ^ (1 + 1)" by (simp add: kilo_def)
  then show ?thesis using unit_index_eq [of 1536 1] by simp
qed

lemma number_string_150: "number_string 150 = ''1.5''"
  by (simp add: number_string_def string_of_nat.simps digit_char_def Let_def)

lemma rounded_hundredths_1536: "rounded_hundredths 1536 1 = 150"
  by (simp add: rounded_hundredths_div kilo_def)

lemma reads_back_example: "decimal_value ''1.5'' = 3 / 2 \<and> two_decimals ''1.5''"
  by (simp add: decimal_value_def two_decimals_def digits_value_def digit_of_def is_digit_def)

theorem formatFileSize_units_witness:
  "formatFileSize 1536 = ''1.5 KB'' \<and> unit_index 1536 = 1 \<and> (1536::nat) < 1024 ^ 4
   \<and> decimal_value ''1.5'' = 3 / 2 \<and> two_decimals ''1.5''"
proof -
  have d: "(0::nat) < 1536 \<and> (1536::nat) < 1024 ^ 4" by simp
  from formatFileSize_units [of 1536, THEN conjunct2, THEN conjunct2, THEN mp, OF d, THEN conjunct1]
  have "formatFileSize 1536 =
          number_string (rounded_hundredths 1536 (unit_index 1536)) @ '' '' @ sizes ! unit_index 1536" .
  then have "formatFileSize 1536 = ''1.5'' @ '' '' @ sizes ! 1"
    unfolding unit_index_1536 rounded_hundredths_1536 number_string_150 .
  then show ?thesis
    using reads_back_example by (simp add: unit_index_1536 sizes_def)
qed

lemma unit_index_beyond: "unit_index (1024 ^ 4) = 4"
proof -
  have "kilo ^ 4 \<le> (1024 ^ 4 ::nat) \<and> (1024 ^ 4 ::nat) < kilo ^ (4 + 1)" by (simp add: kilo_def)
  then show ?thesis using unit_index_eq [of "1024 ^ 4" 4] by simp
qed

lemma rounded_hundredths_beyond: "rounded_hundredths (1024 ^ 4) 4 = 100"
  by (simp add: rounded_hundredths_div kilo_def)

lemma number_string_100: "number_string 100 = ''1''"
  by (simp add: number_string_def string_of_nat.simps digit_char_def Let_def)

lemma formatFileSize_beyond_units: "formatFileSize (1024 ^ 4) = ''1 undefined''"
proof -
  have "formatFileSize (1024 ^ 4) =
      number_string (rounded_hundredths (1024 ^ 4) (unit_index (1024 ^ 4))) @ '' '' @
      sizes_at (unit_index (1024 ^ 4))"
    by (simp add: formatFileSize_def Let_def)
  then show ?thesis
    unfolding unit_index_beyond rounded_hundredths_beyond number_string_100
    by (simp add: sizes_at_def sizes_def)
qed

section \<open>Properties of the Asset Registry\<close>

lemma find_by_hash_Some:
  "find_by_hash h reg = Some a \<Longrightarrow> a \<in> set reg \<and> row_hash a = h"
  unfolding find_by_hash_def by (induction reg) (auto split: if_splits)

lemma find_by_hash_None: "find_by_hash h reg = None \<longleftrightarrow> (\<forall>a\<in>set reg. row_hash a \<noteq> h)"
  unfolding find_by_hash_def by (auto simp add: find_None_iff)

lemma rows_with_hash_one:
  "distinct (map row_hash reg) \<Longrightarrow> a \<in> set reg \<Longrightarrow> rows_with_hash (row_hash a) reg = 1"
  unfolding rows_with_hash_def
proof (induction reg)
  case Nil
  then show ?case by simp
next
  case (Cons x xs)
  show ?case
  proof (cases "row_hash x = row_hash a")
    case True
    from Cons.prems(1) have "row_hash x \<notin> row_hash ` set xs" by simp
    have "\<forall>y\<in>set xs. row_hash y \<noteq> row_hash a"
    proof (intro ballI notI)
      fix y assume m: "y \<in> set xs" and e: "row_hash y = row_hash a"
      from m have "row_hash y \<in> row_hash ` set xs" by (rule imageI)
      with e True \<open>row_hash x \<notin> row_hash ` set xs\<close> show False by simp
    qed
    then have "filter (\<lambda>y. row_hash y = row_hash a) xs = []" by (simp add: filter_empty_conv)
    with True show ?thesis by simp
  next
    case False
    with Cons.prems have "a \<in> set xs" "distinct (map row_hash xs)" by auto
    with Cons.IH False show ?thesis by simp
  qed
qed

text \<open>What \<open>finish_create\<close> guarantees when the lookup result is a row of the table.\<close>

lemma finish_create_props:
  assumes "finish_create u h md found reg = (a, reg')"
    and "distinct (map row_hash reg)"
    and "\<forall>x. found = Some x \<longrightarrow> x \<in> set reg \<and> row_hash x = h"
  shows "a \<in> set reg' \<and> row_hash a = h \<and> distinct (map row_hash reg') \<and>
         set reg \<subseteq> set reg'"
proof (cases found)
  case (Some x)
  with assms show ?thesis by (auto simp add: finish_create_def)
next
  case None
  show ?thesis
  proof (cases "find_by_hash h reg")
    case N: None
    then have "\<forall>y\<in>set reg. row_hash y \<noteq> h" by (simp add: find_by_hash_None)
    with None N assms show ?thesis
      by (auto simp add: finish_create_def insert_row_def Let_def)
  next
    case (Some y)
    with None assms find_by_hash_Some [OF Some] show ?thesis
      by (auto simp add: finish_create_def insert_row_def)
  qed
qed

lemma create_existing: "find_by_hash h reg = Some a \<Longrightarrow> create u h md reg = (a, reg)"
  by (simp add: create_def finish_create_def)

lemma create_props:
  assumes "create u h md reg = (a, reg')" and "distinct (map row_hash reg)"
  shows "a \<in> set reg' \<and> row_hash a = h \<and> distinct (map row_hash reg') \<and>
         find_by_hash h reg' = Some a"
proof -
  from assms(1) have f: "finish_create u h md (find_by_hash h reg) reg = (a, reg')"
    by (simp add: create_def)
  have "\<forall>x. find_by_hash h reg = Some x \<longrightarrow> x \<in> set reg \<and> row_hash x = h"
    using find_by_hash_Some by blast
  from finish_create_props [OF f assms(2) this]
  have p: "a \<in> set reg'" "row_hash a = h" "distinct (map row_hash reg')" by simp_all
  from p(1,2) obtain b where b: "find_by_hash h reg' = Some b"
    by (cases "find_by_hash h reg'") (auto simp add: find_by_hash_None)
  from find_by_hash_Some [OF b] p have "b = a"
    by (metis distinct_map inj_on_def)
  with p b show ?thesis by simp
qed


lemma call_ok_mono: "call_ok c reg \<Longrightarrow> set reg \<subseteq> set reg' \<Longrightarrow> call_ok c reg'"
  by (cases c) (auto split: option.splits)

lemma call_step_inv:
  assumes "call_step c reg = (c', reg')" and "distinct (map row_hash reg)" and "call_ok c reg"
  shows "distinct (map row_hash reg') \<and> call_ok c' reg' \<and> set reg \<subseteq> set reg' \<and>
         call_hash c' = call_hash c \<and> progress c' = min 2 (progress c + 1)"
proof (cases c)
  case (Pending u h md)
  with assms find_by_hash_Some [of h reg] show ?thesis
    by (auto split: option.splits)
next
  case (Looked u h md found)
  obtain a r where f: "finish_create u h md found reg = (a, r)"
    by (cases "finish_create u h md found reg")
  from assms(3) Looked have "\<forall>x. found = Some x \<longrightarrow> x \<in> set reg \<and> row_hash x = h"
    by (cases found) simp_all
  from finish_create_props [OF f assms(2) this] assms(1) Looked f show ?thesis
    by auto
next
  case (Returned a)
  with assms show ?thesis by auto
qed

lemma progress_le: "progress c \<le> 2"
  by (cases c) simp_all

lemma race_inv:
  assumes "race sch (c1, c2, reg) = (d1, d2, reg')"
    and "distinct (map row_hash reg)" and "call_ok c1 reg" and "call_ok c2 reg"
  shows "distinct (map row_hash reg') \<and> call_ok d1 reg' \<and> call_ok d2 reg' \<and>
         call_hash d1 = call_hash c1 \<and> call_hash d2 = call_hash c2 \<and>
         progress d1 = min 2 (progress c1 + length (filter Not sch)) \<and>
         progress d2 = min 2 (progress c2 + length (filter (\<lambda>b. b) sch))"
  using assms
proof (induction sch arbitrary: c1 c2 reg)
  case Nil
  with progress_le [of c1] progress_le [of c2] show ?case by (simp add: min_def)
next
  case (Cons b bs)
  show ?case
  proof (cases b)
    case True
    obtain e2 r where s: "call_step c2 reg = (e2, r)" by (cases "call_step c2 reg")
    from call_step_inv [OF s Cons.prems(2,4)]
    have i: "distinct (map row_hash r)" "call_ok e2 r" "set reg \<subseteq> set r"
      "call_hash e2 = call_hash c2" "progress e2 = min 2 (progress c2 + 1)"
      by simp_all
    from Cons.prems(3) i(3) have o1: "call_ok c1 r" by (rule call_ok_mono)
    from Cons.prems(1) True s have "race bs (c1, e2, r) = (d1, d2, reg')" by simp
    from Cons.IH [OF this i(1) o1 i(2)] i(4,5) True show ?thesis by auto
  next
    case False
    obtain e1 r where s: "call_step c1 reg = (e1, r)" by (cases "call_step c1 reg")
    from call_step_inv [OF s Cons.prems(2,3)]
    have i: "distinct (map row_hash r)" "call_ok e1 r" "set reg \<subseteq> set r"
      "call_hash e1 = call_hash c1" "progress e1 = min 2 (progress c1 + 1)"
      by simp_all
    from Cons.prems(4) i(3) have o2: "call_ok c2 r" by (rule call_ok_mono)
    from Cons.prems(1) False s have "race bs (e1, c2, r) = (d1, d2, reg')" by simp
    from Cons.IH [OF this i(1) i(2) o2] i(4,5) False show ?thesis by auto
  qed
qed

lemma progress_done: "progress c = 2 \<Longrightarrow> \<exists>a. c = Returned a"
  by (cases c) simp_all

lemma same_hash_same_row:
  "distinct (map row_hash reg) \<Longrightarrow> a \<in> set reg \<Longrightarrow> b \<in> set reg \<Longrightarrow>
   row_hash a = row_hash b \<Longrightarrow> a = b"
  by (metis distinct_map inj_on_def)

lemma race_same_hash:
  assumes "distinct (map row_hash reg)"
    and "2 \<le> length (filter Not sch)" and "2 \<le> length (filter (\<lambda>b. b) sch)"
  shows "\<exists>a reg'. race sch (Pending u1 h m1, Pending u2 h m2, reg) = (Returned a, Returned a, reg') \<and>
           row_hash a = h \<and> rows_with_hash h reg' = 1 \<and> distinct (map row_hash reg')"
proof -
  obtain d1 d2 reg' where r: "race sch (Pending u1 h m1, Pending u2 h m2, reg) = (d1, d2, reg')"
    by (cases "race sch (Pending u1 h m1, Pending u2 h m2, reg)")
  have "call_ok (Pending u1 h m1) reg" "call_ok (Pending u2 h m2) reg" by simp_all
  from race_inv [OF r assms(1) this] assms(2,3)
  have i: "distinct (map row_hash reg')" "call_ok d1 reg'" "call_ok d2 reg'"
      "call_hash d1 = h" "call_hash d2 = h" "progress d1 = 2" "progress d2 = 2"
    by simp_all
  from progress_done [OF i(6)] obtain a1 where a1: "d1 = Returned a1" by blast
  from progress_done [OF i(7)] obtain a2 where a2: "d2 = Returned a2" by blast
  from i a1 a2 have m: "a1 \<in> set reg'" "a2 \<in> set reg'" "row_hash a1 = h" "row_hash a2 = h"
    by simp_all
  with i(1) have "a1 = a2" by (intro same_hash_same_row [of reg']) simp_all
  moreover from rows_with_hash_one [OF i(1) m(1)] m(3) have "rows_with_hash h reg' = 1" by simp
  ultimately show ?thesis using r a1 a2 m i(1) by simp
qed

lemma create_twice:
  assumes "distinct (map row_hash reg)"
  shows "\<exists>a1 r1. create u1 h m1 reg = (a1, r1) \<and> create u2 h m2 r1 = (a1, r1) \<and>
           row_hash a1 = h \<and> rows_with_hash h r1 = 1 \<and> distinct (map row_hash r1)"
proof -
  obtain a1 r1 where c: "create u1 h m1 reg = (a1, r1)" by (cases "create u1 h m1 reg")
  from create_props [OF c assms]
  have p: "a1 \<in> set r1" "row_hash a1 = h" "distinct (map row_hash r1)"
    "find_by_hash h r1 = Some a1" by simp_all
  from create_existing [OF p(4)] have "create u2 h m2 r1 = (a1, r1)" .
  moreover from rows_with_hash_one [OF p(3) p(1)] p(2) have "rows_with_hash h r1 = 1" by simp
  ultimately show ?thesis using c p by simp
qed

text \<open>
  Claim C5, against the registry as the spec describes it. If a row with the hash exists,
  \<open>create\<close> returns that row and leaves the table unchanged. On a table with distinct
  hashes, two calls of \<open>create\<close> with the same hash, one after the other, return the
  same row and leave exactly one row with that hash; and so do two calls racing under any
  schedule that lets both finish, each call being a lookup followed by an insert that
  treats a unique-constraint violation as "already exists".
\<close>

theorem create_idempotent_by_hash:
  "(find_by_hash h reg = Some a \<longrightarrow> create u h md reg = (a, reg))
   \<and> (distinct (map row_hash reg) \<longrightarrow>
        (\<exists>a1 r1. create u1 h m1 reg = (a1, r1) \<and> create u2 h m2 r1 = (a1, r1) \<and>
           row_hash a1 = h \<and> rows_with_hash h r1 = 1 \<and> distinct (map row_hash r1)))
   \<and> (distinct (map row_hash reg) \<and>
        2 \<le> length (filter Not sch) \<and> 2 \<le> length (filter (\<lambda>b. b) sch) \<longrightarrow>
        (\<exists>a' reg'. race sch (Pending u1 h m1, Pending u2 h m2, reg) =
                     (Returned a', Returned a', reg') \<and>
           row_hash a' = h \<and> rows_with_hash h reg' = 1 \<and> distinct (map row_hash reg')))"
  using create_existing [of h reg a u md] create_twice [of reg u1 h m1 u2 m2]
    race_same_hash [of reg sch u1 h m1 u2 m2]
  by blast

theorem create_idempotent_by_hash_witness:
  "create ''s3/a.vrma'' ''9f2c'' () [] = (example_row, [example_row])
   \<and> create ''s3/b.vrma'' ''9f2c'' () [example_row] = (example_row, [example_row])
   \<and> race [False, True, False, True]
        (Pending ''s3/a.vrma'' ''9f2c'' (), Pending ''s3/b.vrma'' ''9f2c'' (), []) =
       (Returned example_row, Returned example_row, [example_row])
   \<and> rows_with_hash ''9f2c'' [example_row] = 1"
proof -
  have f: "find_by_hash ''9f2c'' [example_row] = Some example_row"
    by (simp add: find_by_hash_def example_row_def)
  with create_idempotent_by_hash [of "''9f2c''" "[example_row]" example_row "''s3/b.vrma''" "()"]
  have "create ''s3/b.vrma'' ''9f2c'' () [example_row] = (example_row, [example_row])"
    by blast
  moreover have "create ''s3/a.vrma'' ''9f2c'' () [] = (example_row, [example_row])"
    by (simp add: create_def finish_create_def insert_row_def find_by_hash_def fresh_id_def
        example_row_def Let_def)
  moreover have "race [False, True, False, True]
        (Pending ''s3/a.vrma'' ''9f2c'' (), Pending ''s3/b.vrma'' ''9f2c'' (), []) =
       (Returned example_row, Returned example_row, [example_row])"
    by (simp add: finish_create_def insert_row_def find_by_hash_def fresh_id_def
        example_row_def Let_def)
  moreover have "rows_with_hash ''9f2c'' [example_row] = 1"
    by (simp add: rows_with_hash_def example_row_def)
  ultimately show ?thesis by simp
qed

end
